(* ===== verification/Prelude.thy ===== *)
theory Prelude
  imports Main "HOL-Library.Word" "HOL-Library.Monad_Syntax"
begin

text \<open>
  Shared vocabulary of the development: the machine-integer types of the Rust sources,
  byte strings, the iteration order of a hash map, and the generic facts on lists, options
  and maps that several components use.

  Conventions used everywhere:
  \<^item> a Rust \<open>String\<close> or \<open>&str\<close> is a HOL \<open>string\<close> (a list of bytes, its
    UTF-8 encoding); a \<open>Vec<u8>\<close>, \<open>Bytes\<close> or PHP binary string is a list of \<open>u8\<close>;
  \<^item> \<open>Result<T, E>\<close> is \<open>'e + 't\<close> with \<open>Inl\<close> for the error, \<open>Option<T>\<close> is
    \<open>'t option\<close>;
  \<^item> a call that may not return to its caller (a loop that may run forever, a mutex that the
    calling thread already holds, a slice out of range) has an \<open>option\<close> around its result,
    and \<open>None\<close> means that control never comes back.
\<close>

subsection \<open>Machine integers and byte strings\<close>

type_synonym u8 = "8 word"
type_synonym u16 = "16 word"
type_synonym u32 = "32 word"
type_synonym u64 = "64 word"
type_synonym u128 = "128 word"
type_synonym usize = "64 word"
type_synonym i32 = "32 word"
type_synonym i64 = "64 word"

type_synonym bytes = "u8 list"

text \<open>
  \<open>config_defs\<close>: the accessors of the configuration. \<open>step_simps\<close>: what unfolds a call into PHP
  down to the program it runs.
\<close>

named_theorems config_defs "the getters and setters of the configuration"
named_theorems step_simps "the equations that unfold a call of a PHP callback"

definition bytes_of_string :: "string \<Rightarrow> bytes" where
  "bytes_of_string s = map (\<lambda>c. word_of_nat (of_char c)) s"

definition string_of_bytes :: "bytes \<Rightarrow> string" where
  "string_of_bytes bs = map (\<lambda>b. char_of (unat b)) bs"

lemma string_of_bytes_of_string [simp]: "string_of_bytes (bytes_of_string s) = s"
  by (induction s)
    (simp_all add: string_of_bytes_def bytes_of_string_def unat_of_nat take_bit_eq_mod)

lemma bytes_of_string_of_bytes [simp]: "bytes_of_string (string_of_bytes bs) = bs"
proof -
  have "unat b mod 256 = unat b" for b :: u8
    using unsigned_less [of b, where 'a = nat] by simp
  then show ?thesis
    by (induction bs) (simp_all add: string_of_bytes_def bytes_of_string_def)
qed

lemma length_bytes_of_string [simp]: "length (bytes_of_string s) = length s"
  by (simp add: bytes_of_string_def)

subsection \<open>The iteration order of a hash map\<close>

text \<open>
  \<open>HashMap::drain\<close>, \<open>iter\<close> and \<open>retain\<close> visit every entry once, in an order the
  program does not know. The order is a parameter of the operations that iterate: a function
  from the set of keys to a list of them, of which only the following is ever assumed.
\<close>

definition hash_order :: "('k set \<Rightarrow> 'k list) \<Rightarrow> bool" where
  "hash_order ord \<longleftrightarrow> (\<forall>A. finite A \<longrightarrow> distinct (ord A) \<and> set (ord A) = A)"

lemma hash_orderD:
  assumes "hash_order ord" "finite A"
  shows "distinct (ord A)" "set (ord A) = A"
  using assms by (auto simp: hash_order_def)

lemma hash_order_sorted: "hash_order (sorted_list_of_set :: 'k::linorder set \<Rightarrow> 'k list)"
  by (simp add: hash_order_def)

subsection \<open>Options, lists and maps\<close>

lemma bind_Some_iff: "(x \<bind> f) = Some y \<longleftrightarrow> (\<exists>a. x = Some a \<and> f a = Some y)"
  by (cases x) auto

lemma dom_finite_upd [simp]: "finite (dom (m(k \<mapsto> v))) \<longleftrightarrow> finite (dom m)"
  by simp

subsection \<open>Invariants of transition systems\<close>

text \<open>
  A transition system and a property that holds at the start and is kept by every step: the
  property holds in every reachable state.
\<close>

locale inductive_invariant =
  fixes start :: "'s \<Rightarrow> bool" and step :: "'s \<Rightarrow> 's \<Rightarrow> bool" and inv :: "'s \<Rightarrow> bool"
  assumes inv_start: "start s \<Longrightarrow> inv s"
    and inv_step: "inv s \<Longrightarrow> step s s' \<Longrightarrow> inv s'"
begin

lemma inv_rtranclp: "start s \<Longrightarrow> step\<^sup>*\<^sup>* s s' \<Longrightarrow> inv s'"
  by (erule rtranclp_induct) (auto intro: inv_start inv_step)

end

end
