(* ===== verification/Utf8.thy ===== *)
theory Utf8
  imports Prelude
begin

text \<open>
  \<open>String::from_utf8_lossy\<close> of the Rust standard library, which \<open>Config::get_alpn\<close>
  applies to every stored protocol name. A maximal ill-formed subpart is replaced by
  U+FFFD; a well-formed text is returned as it is.
\<close>

definition is_cont :: "u8 \<Rightarrow> bool" where
  "is_cont b \<longleftrightarrow> 0x80 \<le> b \<and> b \<le> 0xBF"

definition byte_at :: "bytes \<Rightarrow> nat \<Rightarrow> u8" where
  "byte_at bs i = (if i < length bs then bs ! i else 0)"

text \<open>
  One step of the decoder on the text \<open>b # bs\<close>: \<open>(True, n)\<close> when the next \<open>n\<close>
  bytes are a well-formed character, \<open>(False, n)\<close> when they are an ill-formed sequence.
\<close>

definition second_ok :: "u8 \<Rightarrow> u8 \<Rightarrow> bool" where
  "second_ok b c \<longleftrightarrow>
     (if b = 0xE0 then 0xA0 \<le> c \<and> c \<le> 0xBF
      else if b = 0xED then 0x80 \<le> c \<and> c \<le> 0x9F
      else if b = 0xF0 then 0x90 \<le> c \<and> c \<le> 0xBF
      else if b = 0xF4 then 0x80 \<le> c \<and> c \<le> 0x8F
      else is_cont c)"

definition utf8_width :: "u8 \<Rightarrow> nat" where
  "utf8_width b =
     (if b < 0x80 then 1
      else if 0xC2 \<le> b \<and> b \<le> 0xDF then 2
      else if 0xE0 \<le> b \<and> b \<le> 0xEF then 3
      else if 0xF0 \<le> b \<and> b \<le> 0xF4 then 4
      else 0)"

definition utf8_step :: "u8 \<Rightarrow> bytes \<Rightarrow> bool \<times> nat" where
  "utf8_step b bs =
     (let w = utf8_width b in
      if w = 0 then (False, 1)
      else if w = 1 then (True, 1)
      else if \<not> second_ok b (byte_at bs 0) then (False, 1)
      else if w = 2 then (True, 2)
      else if \<not> is_cont (byte_at bs 1) then (False, 2)
      else if w = 3 then (True, 3)
      else if \<not> is_cont (byte_at bs 2) then (False, 3)
      else (True, 4))"

function utf8_valid :: "bytes \<Rightarrow> bool" where
  "utf8_valid [] = True"
| "utf8_valid (b # bs) =
     (case utf8_step b bs of (ok, n) \<Rightarrow> ok \<and> utf8_valid (drop (n - 1) bs))"
  by pat_completeness auto
termination
  by (relation "measure length") (auto simp: less_Suc_eq_le)

definition replacement_char :: bytes where
  "replacement_char = [0xEF, 0xBF, 0xBD]"

function from_utf8_lossy :: "bytes \<Rightarrow> bytes" where
  "from_utf8_lossy [] = []"
| "from_utf8_lossy (b # bs) =
     (case utf8_step b bs of
        (ok, n) \<Rightarrow>
          (if ok then take n (b # bs) else replacement_char) @ from_utf8_lossy (drop (n - 1) bs))"
  by pat_completeness auto
termination
  by (relation "measure length") (auto simp: less_Suc_eq_le)

subsection \<open>Well-formed texts are fixed points, and the result is well-formed\<close>

lemma utf8_step_pos: "utf8_step b bs = (ok, n) \<Longrightarrow> 0 < n"
  by (auto simp: utf8_step_def Let_def split: if_splits)

lemma second_ok_0: "utf8_width b = w \<Longrightarrow> 2 \<le> w \<Longrightarrow> \<not> second_ok b 0"
  by (auto simp: second_ok_def is_cont_def)

lemma is_cont_0: "\<not> is_cont 0"
  by (simp add: is_cont_def)

lemma utf8_step_length: "utf8_step b bs = (True, n) \<Longrightarrow> n \<le> Suc (length bs)"
  using second_ok_0 [of b _] is_cont_0
  by (auto simp: utf8_step_def byte_at_def Let_def Suc_le_eq split: if_splits)

text \<open>An accepted step looks at no byte beyond the character it accepts.\<close>

lemma utf8_step_True_iff:
  "utf8_step b bs = (True, n) \<longleftrightarrow>
     n = utf8_width b \<and> 0 < n \<and> (1 < n \<longrightarrow> second_ok b (byte_at bs 0)) \<and>
     (2 < n \<longrightarrow> is_cont (byte_at bs 1)) \<and> (3 < n \<longrightarrow> is_cont (byte_at bs 2))"
proof -
  have "utf8_width b \<in> {0, 1, 2, 3, 4}"
    by (simp add: utf8_width_def)
  then consider "utf8_width b = 0" | "utf8_width b = 1" | "utf8_width b = 2"
    | "utf8_width b = 3" | "utf8_width b = 4"
    by fastforce
  then show ?thesis
    by cases (auto simp: utf8_step_def)
qed

lemma byte_at_take_append: "n \<le> length bs \<Longrightarrow> i < n \<Longrightarrow> byte_at (take n bs @ ys) i = byte_at bs i"
  by (simp add: byte_at_def nth_append)

lemma utf8_step_take:
  assumes "utf8_step b bs = (True, n)"
  shows "utf8_step b (take (n - 1) bs @ ys) = (True, n)"
proof -
  have "n - 1 \<le> length bs"
    using utf8_step_length [OF assms] by simp
  then have "byte_at (take (n - 1) bs @ ys) i = byte_at bs i" if "Suc i < n" for i
    using that by (simp add: byte_at_take_append)
  from this [of 0] this [of 1] this [of 2] assms show ?thesis
    by (simp add: utf8_step_True_iff numeral_2_eq_2)
qed

lemma from_utf8_lossy_valid_id: "utf8_valid bs \<Longrightarrow> from_utf8_lossy bs = bs"
proof (induction bs rule: utf8_valid.induct)
  case 1
  then show ?case by simp
next
  case (2 b bs)
  then obtain n where n: "utf8_step b bs = (True, n)"
    by (auto split: prod.splits)
  with 2 have "from_utf8_lossy (drop (n - 1) bs) = drop (n - 1) bs"
    by simp
  with n utf8_step_pos [OF n] show ?case
    by (cases n) auto
qed

lemma utf8_valid_replacement: "utf8_valid (replacement_char @ bs) = utf8_valid bs"
  by (simp add: replacement_char_def utf8_step_def utf8_width_def second_ok_def is_cont_def
      byte_at_def)

lemma utf8_valid_char:
  assumes "utf8_step b bs = (True, n)" "utf8_valid ys"
  shows "utf8_valid (take n (b # bs) @ ys)"
proof -
  have "utf8_step b (take (n - 1) bs @ ys) = (True, n)"
    using assms(1) by (rule utf8_step_take)
  moreover have "drop (n - 1) (take (n - 1) bs @ ys) = ys"
    using utf8_step_length [OF assms(1)] utf8_step_pos [OF assms(1)] by simp
  ultimately show ?thesis
    using assms(2) utf8_step_pos [OF assms(1)] by (cases n) auto
qed

lemma from_utf8_lossy_valid: "utf8_valid (from_utf8_lossy bs)"
proof (induction bs rule: from_utf8_lossy.induct)
  case 1
  then show ?case by simp
next
  case (2 b bs)
  obtain ok n where n: "utf8_step b bs = (ok, n)" by force
  with 2 have "utf8_valid (from_utf8_lossy (drop (n - 1) bs))" by simp
  with n show ?case
    using utf8_valid_char [of b bs n] by (cases ok) (simp_all add: utf8_valid_replacement)
qed

end
