(* ===== verification/Radix.thy ===== *)
theory Radix
  imports Prelude
begin

text \<open>
  The integer parser and printer of the Rust standard library that the sources call:
  \<open>u128::from_str_radix(s, 16)\<close> and \<open>format!("{:x}", t)\<close> (\<open>src/config.rs\<close>),
  \<open>s.parse::<usize>()\<close> (\<open>src/quiche/runtime.rs\<close>) and the \<open>{}\<close> of a \<open>u16\<close>
  (\<open>src/conn.rs\<close>). The locale \<open>text_codec\<close> is what a caller relies on: reading back a
  printed value gives the value.
\<close>

subsection \<open>Digits\<close>

definition digit_value :: "nat \<Rightarrow> char \<Rightarrow> nat option" where
  "digit_value r c =
     (let k = of_char c :: nat;
          d = (if 48 \<le> k \<and> k \<le> 57 then Some (k - 48)
               else if 97 \<le> k \<and> k \<le> 122 then Some (k - 87)
               else if 65 \<le> k \<and> k \<le> 90 then Some (k - 55)
               else None)
      in case d of None \<Rightarrow> None | Some v \<Rightarrow> if v < r then Some v else None)"

definition digit_char :: "nat \<Rightarrow> char" where
  "digit_char d = char_of (if d < 10 then 48 + d else 87 + d)"

lemma digit_value_char: "r \<le> 36 \<Longrightarrow> d < r \<Longrightarrow> digit_value r (digit_char d) = Some d"
  by (auto simp: digit_value_def digit_char_def Let_def)

lemma digit_value_less: "digit_value r c = Some v \<Longrightarrow> v < r"
  by (auto simp: digit_value_def Let_def split: option.splits if_splits)

subsection \<open>Reading\<close>

text \<open>
  The accumulator loop checks for overflow at every digit. \<open>bound\<close> is two to the width of
  the integer type.
\<close>

fun parse_digits :: "nat \<Rightarrow> nat \<Rightarrow> nat \<Rightarrow> string \<Rightarrow> nat option" where
  "parse_digits r bound acc [] = Some acc"
| "parse_digits r bound acc (c # cs) =
     (case digit_value r c of
        None \<Rightarrow> None
      | Some d \<Rightarrow>
          if acc * r + d < bound then parse_digits r bound (acc * r + d) cs else None)"

definition from_str_radix :: "nat \<Rightarrow> nat \<Rightarrow> string \<Rightarrow> nat option" where
  "from_str_radix r bound s =
     (case s of
        [] \<Rightarrow> None
      | c # cs \<Rightarrow>
          if c = CHR ''+'' then (if cs = [] then None else parse_digits r bound 0 cs)
          else parse_digits r bound 0 (c # cs))"

subsection \<open>Printing\<close>

fun print_radix :: "nat \<Rightarrow> nat \<Rightarrow> string" where
  "print_radix r n =
     (if r < 2 \<or> n < r then [digit_char n]
      else print_radix r (n div r) @ [digit_char (n mod r)])"

declare print_radix.simps [simp del]

lemma print_radix_nonempty [simp]: "print_radix r n \<noteq> []"
  by (subst print_radix.simps) simp

lemma parse_digits_append:
  "parse_digits r bound acc (xs @ ys) =
     (case parse_digits r bound acc xs of None \<Rightarrow> None | Some a \<Rightarrow> parse_digits r bound a ys)"
  by (induction xs arbitrary: acc) (auto split: option.splits)

lemma parse_digits_print:
  assumes "2 \<le> r" "r \<le> 36" "n < bound"
  shows "parse_digits r bound 0 (print_radix r n) = Some n"
  using assms
proof (induction r n rule: print_radix.induct)
  case (1 r n)
  show ?case
  proof (cases "n < r")
    case True
    with "1.prems" show ?thesis
      by (subst print_radix.simps) (simp add: digit_value_char)
  next
    case False
    with "1.prems" have "n div r < bound"
      using div_le_dividend le_less_trans by blast
    with "1" False have "parse_digits r bound 0 (print_radix r (n div r)) = Some (n div r)"
      by simp
    with "1.prems" False show ?thesis
      by (subst print_radix.simps) (simp add: parse_digits_append digit_value_char)
  qed
qed

lemma set_print_radix:
  "2 \<le> r \<Longrightarrow> set (print_radix r n) \<subseteq> digit_char ` {..<r}"
proof (induction r n rule: print_radix.induct)
  case (1 r n)
  then show ?case
    by (subst print_radix.simps) (auto simp: subset_iff)
qed

lemma digit_char_not_sign: "d < 36 \<Longrightarrow> digit_char d \<noteq> CHR ''+'' \<and> digit_char d \<noteq> CHR '':''"
proof -
  assume "d < 36"
  then have "of_char (digit_char d) = (if d < 10 then 48 + d else 87 + d)"
    by (simp add: digit_char_def)
  then show ?thesis by (auto split: if_splits)
qed

lemma print_radix_no_sign:
  assumes "2 \<le> r" "r \<le> 36"
  shows "CHR ''+'' \<notin> set (print_radix r n)" "CHR '':'' \<notin> set (print_radix r n)"
proof -
  have "c \<noteq> CHR ''+'' \<and> c \<noteq> CHR '':''" if c: "c \<in> set (print_radix r n)" for c
  proof -
    obtain d where "c = digit_char d" "d < r"
      using c set_print_radix [OF assms(1)] by blast
    with assms(2) show ?thesis using digit_char_not_sign by simp
  qed
  then show "CHR ''+'' \<notin> set (print_radix r n)" "CHR '':'' \<notin> set (print_radix r n)"
    by blast+
qed

lemma from_str_radix_print:
  assumes "2 \<le> r" "r \<le> 36" "n < bound"
  shows "from_str_radix r bound (print_radix r n) = Some n"
proof (cases "print_radix r n")
  case Nil
  then show ?thesis by simp
next
  case (Cons c cs)
  then have "c \<noteq> CHR ''+''"
    using print_radix_no_sign(1) [OF assms(1,2), of n] by auto
  with Cons show ?thesis
    using parse_digits_print [OF assms] by (simp add: from_str_radix_def)
qed

lemma parse_digits_bound: "parse_digits r bound acc s = Some v \<Longrightarrow> acc < bound \<Longrightarrow> v < bound"
  by (induction s arbitrary: acc) (auto split: option.splits if_splits)

lemma from_str_radix_bound: "from_str_radix r bound s = Some v \<Longrightarrow> 0 < bound \<Longrightarrow> v < bound"
  by (auto simp: from_str_radix_def simp del: parse_digits.simps
      dest: parse_digits_bound split: list.splits if_splits)

subsection \<open>Codecs\<close>

locale text_codec =
  fixes print :: "'a \<Rightarrow> string"
    and parse :: "string \<Rightarrow> 'a option"
  assumes parse_print: "parse (print x) = Some x"
begin

lemma print_eq_iff: "print x = print y \<longleftrightarrow> x = y"
  by (metis option.inject parse_print)

end

definition print_hex_u128 :: "u128 \<Rightarrow> string" where
  "print_hex_u128 t = print_radix 16 (unat t)"

definition parse_hex_u128 :: "string \<Rightarrow> u128 option" where
  "parse_hex_u128 s = map_option word_of_nat (from_str_radix 16 (2 ^ 128) s)"

definition print_u16 :: "u16 \<Rightarrow> string" where
  "print_u16 p = print_radix 10 (unat p)"

definition parse_u16 :: "string \<Rightarrow> u16 option" where
  "parse_u16 s = map_option word_of_nat (from_str_radix 10 (2 ^ 16) s)"

definition print_usize :: "usize \<Rightarrow> string" where
  "print_usize n = print_radix 10 (unat n)"

definition parse_usize :: "string \<Rightarrow> usize option" where
  "parse_usize s = map_option word_of_nat (from_str_radix 10 (2 ^ 64) s)"

lemma from_str_radix_print_word:
  fixes w :: "'a::len word"
  assumes "2 \<le> r" "r \<le> 36"
  shows "map_option word_of_nat (from_str_radix r (2 ^ LENGTH('a)) (print_radix r (unat w))) = Some w"
  using assms unsigned_less [of w, where 'a = nat] by (simp add: from_str_radix_print)

interpretation hex_u128: text_codec print_hex_u128 parse_hex_u128
  using from_str_radix_print_word [of 16, where 'a = 128]
  by unfold_locales (simp add: print_hex_u128_def parse_hex_u128_def)

interpretation dec_u16: text_codec print_u16 parse_u16
  using from_str_radix_print_word [of 10, where 'a = 16]
  by unfold_locales (simp add: print_u16_def parse_u16_def)

interpretation dec_usize: text_codec print_usize parse_usize
  using from_str_radix_print_word [of 10, where 'a = 64]
  by unfold_locales (simp add: print_usize_def parse_usize_def)

end
