(* ===== verification/Errors.thy ===== *)
theory Errors
  imports Radix
begin

text \<open>
  \<open>src/quiche/error.rs\<close>: the error type of the extension, the texts its \<open>Display\<close>
  gives, and its conversion to a PHP exception. \<open>io_error\<close> is \<open>std::io::Error\<close>: the kind
  and the text its \<open>Display\<close> prints.
\<close>

datatype io_error_kind = InvalidInput | OtherKind | OsKind i32

datatype io_error = IoError io_error_kind string

fun io_error_to_string :: "io_error \<Rightarrow> string" where
  "io_error_to_string (IoError k m) = m"

datatype quiche_error =
    RuntimeInit io_error
  | Status i32 string
  | InvalidArg string
  | InvalidUri string
  | CallbackFailed string

definition print_i32 :: "i32 \<Rightarrow> string" where
  "print_i32 n =
     (if sint n < 0 then CHR ''-'' # print_radix 10 (nat (- sint n))
      else print_radix 10 (nat (sint n)))"

fun quiche_error_to_string :: "quiche_error \<Rightarrow> string" where
  "quiche_error_to_string (RuntimeInit e) =
     ''failed to initialize tokio runtime: '' @ io_error_to_string e"
| "quiche_error_to_string (Status code message) =
     ''gRPC status '' @ print_i32 code @ '': '' @ message"
| "quiche_error_to_string (InvalidArg m) = ''invalid argument: '' @ m"
| "quiche_error_to_string (InvalidUri m) = ''invalid URI: '' @ m"
| "quiche_error_to_string (CallbackFailed m) = ''callback failed: '' @ m"

text \<open>
  A PHP exception: its message, its code and its class. \<open>PhpException::default\<close> is the class
  \<open>\\Exception\<close> with code 0, the same pair that the conversion of a \<open>QuicheError\<close> names.
\<close>

datatype php_class = ExceptionClass

datatype php_exception = PhpException string int php_class

definition php_default :: "string \<Rightarrow> php_exception" where
  "php_default m = PhpException m 0 ExceptionClass"

definition php_exception_from :: "quiche_error \<Rightarrow> php_exception" where
  "php_exception_from e = PhpException (quiche_error_to_string e) 0 ExceptionClass"

subsection \<open>The text of an exception names the error\<close>

lemma print_radix_eq_iff:
  assumes "2 \<le> r" "r \<le> 36"
  shows "print_radix r m = print_radix r n \<longleftrightarrow> m = n"
proof
  assume eq: "print_radix r m = print_radix r n"
  have "from_str_radix r (Suc (m + n)) (print_radix r m) = Some m"
    by (rule from_str_radix_print [OF assms]) simp
  moreover have "from_str_radix r (Suc (m + n)) (print_radix r n) = Some n"
    by (rule from_str_radix_print [OF assms]) simp
  ultimately show "m = n" using eq by (metis option.inject)
qed simp

lemma print_radix_no_minus: "CHR ''-'' \<notin> set (print_radix 10 n)"
proof
  assume "CHR ''-'' \<in> set (print_radix 10 n)"
  then obtain d where d: "d < 10" "CHR ''-'' = digit_char d"
    using set_print_radix [of 10 n] by auto
  then have "of_char (CHR ''-'') = 48 + d"
    by (simp add: digit_char_def del: of_char_Char)
  then show False by simp
qed

lemma print_i32_no_colon: "CHR '':'' \<notin> set (print_i32 n)"
  using print_radix_no_sign(2) [of 10] by (simp add: print_i32_def)

lemma print_i32_eq_iff: "print_i32 m = print_i32 n \<longleftrightarrow> m = n"
proof
  assume eq: "print_i32 m = print_i32 n"
  have "print_radix 10 k \<noteq> CHR ''-'' # xs" for k xs
    using print_radix_no_minus [of k] by (metis list.set_intros(1))
  with eq have "sint m = sint n"
    by (auto simp: print_i32_def print_radix_eq_iff split: if_splits)
      (metis \<open>\<And>xs k. print_radix 10 k \<noteq> CHR ''-'' # xs\<close>)+
  then show "m = n" by (rule signed_word_eqI)
qed simp

lemma append_sep_eq:
  assumes "c \<notin> set xs" "c \<notin> set ys"
  shows "xs @ c # us = ys @ c # vs \<longleftrightarrow> xs = ys \<and> us = vs"
  using assms
proof (induction xs arbitrary: ys)
  case Nil
  then show ?case by (cases ys) auto
next
  case (Cons x xs)
  then show ?case by (cases ys) auto
qed

lemma status_text_eq:
  "print_i32 c @ CHR '':'' # m = print_i32 d @ CHR '':'' # n \<longleftrightarrow> c = d \<and> m = n"
  by (simp add: append_sep_eq print_i32_no_colon print_i32_eq_iff)

subsection \<open>Properties\<close>

text \<open>C40: The exception PHP sees carries everything about an error but the kind of an I/O error:
  two errors give the same exception exactly when they are equal, or both report a failed runtime
  with I/O errors that print the same text. In particular no text of one kind of error can pass
  for another kind, and a status with another code or message gives another exception.\<close>

theorem exception_identifies_error:
  "php_exception_from e = php_exception_from f \<longleftrightarrow>
     e = f \<or> (\<exists>a b. e = RuntimeInit a \<and> f = RuntimeInit b \<and>
       io_error_to_string a = io_error_to_string b)"
  by (cases e; cases f) (auto simp: php_exception_from_def status_text_eq)

end
