(* ===== verification/Runtime.thy ===== *)
theory Runtime
  imports Errors
begin

text \<open>
  \<open>src/quiche/runtime.rs\<close>: the size of the worker pool and the process-wide runtime cell.
  The environment is a parameter: the value of \<open>QUICHE_WORKER_THREADS\<close> (\<open>None\<close> when
  \<open>std::env::var\<close> is an error), the answer of \<open>available_parallelism\<close>, the tokio builder
  \<open>build\<close>, and what another thread may store into the cell while this one builds.
\<close>

definition MIN_WORKER_THREADS :: usize where
  "MIN_WORKER_THREADS = 2"

definition worker_thread_count :: "string option \<Rightarrow> io_error + usize \<Rightarrow> usize" where
  "worker_thread_count env avail =
     (let detected = (case avail of
                        Inr n \<Rightarrow> max n MIN_WORKER_THREADS
                      | Inl e \<Rightarrow> MIN_WORKER_THREADS)
      in case env of
           None \<Rightarrow> detected
         | Some s \<Rightarrow>
             (case parse_usize s of
                None \<Rightarrow> detected
              | Some n \<Rightarrow> if 1 \<le> n then n else detected))"

text \<open>
  \<open>get_runtime build racer env avail cell\<close> returns the result and the new content of the
  cell. \<open>racer\<close> is what another thread stored between the first look at the cell and the
  call of \<open>set\<close>, which keeps the first value.
\<close>

definition once_set :: "'rt \<Rightarrow> 'rt option \<Rightarrow> 'rt option" where
  "once_set rt cell = (case cell of None \<Rightarrow> Some rt | Some r \<Rightarrow> Some r)"

definition get_runtime ::
  "(usize \<Rightarrow> io_error + 'rt) \<Rightarrow> 'rt option \<Rightarrow> string option \<Rightarrow> io_error + usize \<Rightarrow>
   'rt option \<Rightarrow> (quiche_error + 'rt) \<times> 'rt option" where
  "get_runtime build racer env avail cell =
     (case cell of
        Some rt \<Rightarrow> (Inr rt, cell)
      | None \<Rightarrow>
          (case build (worker_thread_count env avail) of
             Inl e \<Rightarrow> (Inl (RuntimeInit e), racer)
           | Inr rt \<Rightarrow>
               (let cell' = once_set rt racer in
                case cell' of
                  Some r \<Rightarrow> (Inr r, cell')
                | None \<Rightarrow> (Inl (RuntimeInit (IoError OtherKind ''runtime init failed'')), cell'))))"

lemma get_runtime_cases:
  "get_runtime build racer env avail cell =
     (case cell of
        Some rt \<Rightarrow> (Inr rt, Some rt)
      | None \<Rightarrow>
          (case build (worker_thread_count env avail) of
             Inl e \<Rightarrow> (Inl (RuntimeInit e), racer)
           | Inr rt \<Rightarrow> (Inr (case racer of None \<Rightarrow> rt | Some r \<Rightarrow> r),
                        Some (case racer of None \<Rightarrow> rt | Some r \<Rightarrow> r))))"
  by (auto simp: get_runtime_def once_set_def Let_def split: option.splits sum.splits)

subsection \<open>Properties\<close>

text \<open>The worker pool is never empty. A \<open>QUICHE_WORKER_THREADS\<close> that is the decimal text of a
  number from 1 on decides the size alone; otherwise (unset, not a number, zero) the size is
  the detected parallelism, but at least two.\<close>

lemma worker_threads_bounds:
  "1 \<le> worker_thread_count env avail \<and>
   (1 \<le> n \<longrightarrow> worker_thread_count (Some (print_usize n)) avail = n) \<and>
   ((\<forall>s n. env = Some s \<longrightarrow> parse_usize s = Some n \<longrightarrow> n = 0) \<longrightarrow>
      2 \<le> worker_thread_count env avail \<and>
      (\<forall>m. avail = Inr m \<longrightarrow> worker_thread_count env avail = max m 2))"
proof -
  have pos: "1 \<le> m \<longleftrightarrow> m \<noteq> 0" for m :: usize
    by (simp add: word_le_nat_alt unat_gt_0 Suc_le_eq)
  have two: "1 \<le> max m (2 :: usize)" for m
    by (rule order_trans [of _ 2]) simp_all
  have ge: "2 \<le> max m (2 :: usize)" for m
    by simp
  show ?thesis
    using dec_usize.parse_print [of n] two ge
    by (auto simp: worker_thread_count_def MIN_WORKER_THREADS_def Let_def pos
        split: option.split sum.split)
qed

text \<open>C39: There is one runtime. Once a call of \<open>get_runtime\<close> has returned a runtime, the cell holds
  it and every later call returns the same one, whatever the environment, the builder and other
  threads do by then; when another thread was faster, the call returns that thread's runtime.
  An error is always the builder's, and the message \<open>runtime init failed\<close> never appears.\<close>

theorem get_runtime_is_stable:
  "(\<forall>rt cell'. get_runtime build racer env avail cell = (Inr rt, cell') \<longrightarrow>
      cell' = Some rt \<and> (cell = None \<longrightarrow> racer \<noteq> None \<longrightarrow> racer = Some rt) \<and>
      get_runtime build' racer' env' avail' cell' = (Inr rt, cell')) \<and>
   (\<forall>e cell'. get_runtime build racer env avail cell = (Inl e, cell') \<longrightarrow>
      cell = None \<and> (\<exists>io. build (worker_thread_count env avail) = Inl io \<and> e = RuntimeInit io))"
  by (auto simp: get_runtime_cases split: option.splits sum.splits)

theorem get_runtime_is_stable_witness:
  "get_runtime (\<lambda>n. Inr n) None (Some ''3'') (Inr 4) None = (Inr (3 :: usize), Some 3) \<and>
   get_runtime (\<lambda>n. Inr n) (Some 9) None (Inr 4) (Some 3) = (Inr (3 :: usize), Some 3)"
proof -
  have shown: "print_usize 3 = ''3''"
    by code_simp
  have "parse_usize ''3'' = Some 3"
    using dec_usize.parse_print [of 3] unfolding shown .
  then have r: "get_runtime (\<lambda>n. Inr n) None (Some ''3'') (Inr 4) None = (Inr (3 :: usize), Some 3)"
    by (simp add: get_runtime_cases worker_thread_count_def)
  then show ?thesis
    using get_runtime_is_stable [where build = "\<lambda>n. Inr n" and racer = None and env = "Some ''3''"
        and avail = "Inr 4" and cell = None and build' = "\<lambda>n. Inr n" and racer' = "Some 9"
        and env' = None and avail' = "Inr 4"] by blast
qed

end
