(* ===== verification/Timer.thy ===== *)
theory Timer
  imports Prelude
begin

text \<open>
  \<open>src/timer.rs\<close>: the three PHP functions that create, signal and close an eventfd, and the
  kernel interface they and \<open>QuicheServerSocket\<close> rely on. The kernel is a parameter: a
  record of the system calls on an unknown state \<open>'k\<close>. What eventfd(2), write(2), dup(2) and
  close(2) document is the locale \<open>eventfd_kernel\<close>: \<open>ofd k fd\<close> is the open file
  description behind a descriptor and \<open>counter k o\<close> the value of that eventfd.
\<close>

record 'k kernel =
  sys_eventfd :: "u32 \<Rightarrow> i32 \<Rightarrow> 'k \<Rightarrow> i32 \<times> 'k"
  sys_write_u64 :: "i32 \<Rightarrow> u64 \<Rightarrow> 'k \<Rightarrow> 'k"
  sys_dup :: "i32 \<Rightarrow> 'k \<Rightarrow> i32 \<times> 'k"
  sys_close :: "i32 \<Rightarrow> 'k \<Rightarrow> 'k"

definition EFD_NONBLOCK :: i32 where
  "EFD_NONBLOCK = 2048"

text \<open>
  \<open>libc::eventfd(..) as i64\<close> sign-extends the \<open>i32\<close> result; \<open>fd as i32\<close> keeps the low
  32 bits of the \<open>i64\<close> that PHP passes.
\<close>

lemma ucast_scast_i32 [simp]: "(ucast (scast f :: i64) :: i32) = f"
  by (rule bit_word_eqI) (simp add: bit_simps)

definition network_eventfd_create :: "'k kernel \<Rightarrow> 'k \<Rightarrow> i64 \<times> 'k" where
  "network_eventfd_create kn k =
     (case sys_eventfd kn 0 EFD_NONBLOCK k of (fd, k') \<Rightarrow> (scast fd, k'))"

definition network_eventfd_signal :: "'k kernel \<Rightarrow> i64 \<Rightarrow> 'k \<Rightarrow> 'k" where
  "network_eventfd_signal kn fd k = sys_write_u64 kn (ucast fd) 1 k"

definition network_eventfd_close :: "'k kernel \<Rightarrow> i64 \<Rightarrow> 'k \<Rightarrow> 'k" where
  "network_eventfd_close kn fd k = sys_close kn (ucast fd) k"

locale eventfd_kernel =
  fixes kn :: "'k kernel"
    and ofd :: "'k \<Rightarrow> i32 \<rightharpoonup> nat"
    and counter :: "'k \<Rightarrow> nat \<Rightarrow> nat"
  assumes eventfd_ok:
      "sys_eventfd kn i fl k = (fd, k') \<Longrightarrow> 0 \<le> sint fd \<Longrightarrow>
         ofd k fd = None \<and> (\<exists>n. ofd k' = (ofd k)(fd \<mapsto> n) \<and> n \<notin> ran (ofd k) \<and>
         counter k' = (counter k)(n := unat i))"
    and write_ok:
      "ofd k fd = Some n \<Longrightarrow> counter k n + unat v < 2 ^ 64 - 1 \<Longrightarrow>
         ofd (sys_write_u64 kn fd v k) = ofd k \<and>
         counter (sys_write_u64 kn fd v k) = (counter k)(n := counter k n + unat v)"
    and dup_ok:
      "sys_dup kn fd k = (fd', k') \<Longrightarrow> 0 \<le> sint fd' \<Longrightarrow>
         ofd k fd' = None \<and> (\<exists>n. ofd k fd = Some n \<and> ofd k' = (ofd k)(fd' \<mapsto> n)) \<and>
         counter k' = counter k"
    and dup_fail:
      "sys_dup kn fd k = (fd', k') \<Longrightarrow> \<not> 0 \<le> sint fd' \<Longrightarrow>
         ofd k' = ofd k \<and> counter k' = counter k"
    and close_ok:
      "ofd (sys_close kn fd k) = (ofd k)(fd := None)"
      "n \<in> ran ((ofd k)(fd := None)) \<Longrightarrow> counter (sys_close kn fd k) n = counter k n"
begin

lemma create_fresh:
  assumes "network_eventfd_create kn k = (fd, k')" "0 \<le> sint fd"
  shows "ofd k (ucast fd) = None \<and> (\<exists>n. ofd k' = (ofd k)(ucast fd \<mapsto> n) \<and> counter k' n = 0)"
proof -
  obtain f where f: "sys_eventfd kn 0 EFD_NONBLOCK k = (f, k')" "fd = scast f"
    using assms(1) by (auto simp: network_eventfd_create_def split: prod.splits)
  have "sint (scast f :: i64) = sint f"
    by (simp add: sint_up_scast is_up)
  with assms(2) f(2) have "0 \<le> sint f" by simp
  moreover have "ucast fd = f"
    by (simp add: f(2))
  ultimately show ?thesis
    using eventfd_ok [OF f(1)] by auto
qed

lemma signal_seen_through_dup:
  assumes "sys_dup kn (ucast fd) k = (fd', k')" "0 \<le> sint fd'"
    and "ofd k (ucast fd) = Some n" "counter k n + 1 < 2 ^ 64 - 1"
  shows "ofd (network_eventfd_signal kn fd k') fd' = Some n"
    and "counter (network_eventfd_signal kn fd k') n = Suc (counter k n)"
proof -
  have d: "ofd k fd' = None" "ofd k' = (ofd k)(fd' \<mapsto> n)" "counter k' = counter k"
    using dup_ok [OF assms(1,2)] assms(3) by auto
  with assms(3) have "ofd k' (ucast fd) = Some n" by auto
  then have w: "ofd (sys_write_u64 kn (ucast fd) 1 k') = ofd k'"
    "counter (sys_write_u64 kn (ucast fd) 1 k') = (counter k')(n := counter k' n + 1)"
    using write_ok [of k' "ucast fd" n 1] assms(4) d(3) by simp_all
  show "ofd (network_eventfd_signal kn fd k') fd' = Some n"
    by (simp add: network_eventfd_signal_def w d)
  show "counter (network_eventfd_signal kn fd k') n = Suc (counter k n)"
    by (simp add: network_eventfd_signal_def w d)
qed

lemma close_keeps_others:
  assumes "ofd k g = Some n" "g \<noteq> ucast fd"
  shows "ofd (network_eventfd_close kn fd k) g = Some n"
    and "counter (network_eventfd_close kn fd k) n = counter k n"
proof -
  have "n \<in> ran ((ofd k)(ucast fd := None))"
    using assms by (auto simp: ran_def)
  then show "counter (network_eventfd_close kn fd k) n = counter k n"
    by (simp add: network_eventfd_close_def close_ok(2))
qed (use assms in \<open>simp add: network_eventfd_close_def close_ok(1)\<close>)

end

subsection \<open>A descriptor table that behaves as documented\<close>

text \<open>
  The reference kernel: a table of descriptors, the lowest free number first as dup(2) says,
  and one counter per eventfd. It shows that the laws can hold together and gives the
  concrete kernel on which the theorems about descriptors are evaluated.
\<close>

record fd_table =
  fdt_fds :: "(i32 \<times> nat) list"
  fdt_counter :: "nat \<Rightarrow> nat"

definition lowest_free :: "fd_table \<Rightarrow> i32 option" where
  "lowest_free k =
     (case find (\<lambda>n. map_of (fdt_fds k) (word_of_nat n) = None) [0..<Suc (length (fdt_fds k))] of
        None \<Rightarrow> None
      | Some n \<Rightarrow> if n < 2 ^ 31 then Some (word_of_nat n) else None)"

definition fresh_object :: "fd_table \<Rightarrow> nat" where
  "fresh_object k = Suc (fold max (map snd (fdt_fds k)) 0)"

definition table_eventfd :: "u32 \<Rightarrow> i32 \<Rightarrow> fd_table \<Rightarrow> i32 \<times> fd_table" where
  "table_eventfd v fl k =
     (case lowest_free k of
        None \<Rightarrow> (-1, k)
      | Some fd \<Rightarrow>
          (fd, k\<lparr>fdt_fds := (fd, fresh_object k) # fdt_fds k,
                 fdt_counter := (fdt_counter k)(fresh_object k := unat v)\<rparr>))"

definition table_write :: "i32 \<Rightarrow> u64 \<Rightarrow> fd_table \<Rightarrow> fd_table" where
  "table_write fd v k =
     (case map_of (fdt_fds k) fd of
        None \<Rightarrow> k
      | Some n \<Rightarrow>
          if fdt_counter k n + unat v < 2 ^ 64 - 1
          then k\<lparr>fdt_counter := (fdt_counter k)(n := fdt_counter k n + unat v)\<rparr> else k)"

definition table_dup :: "i32 \<Rightarrow> fd_table \<Rightarrow> i32 \<times> fd_table" where
  "table_dup fd k =
     (case (map_of (fdt_fds k) fd, lowest_free k) of
        (Some n, Some fd') \<Rightarrow> (fd', k\<lparr>fdt_fds := (fd', n) # fdt_fds k\<rparr>)
      | _ \<Rightarrow> (-1, k))"

definition table_close :: "i32 \<Rightarrow> fd_table \<Rightarrow> fd_table" where
  "table_close fd k = k\<lparr>fdt_fds := filter (\<lambda>(g, _). g \<noteq> fd) (fdt_fds k)\<rparr>"

definition table_kernel :: "fd_table kernel" where
  "table_kernel = \<lparr>sys_eventfd = table_eventfd, sys_write_u64 = table_write,
     sys_dup = table_dup, sys_close = table_close\<rparr>"

lemma lowest_free_Some: "lowest_free k = Some fd \<Longrightarrow> map_of (fdt_fds k) fd = None"
  by (auto simp: lowest_free_def find_Some_iff split: option.splits if_splits)

lemma lowest_free_nonneg: "lowest_free k = Some fd \<Longrightarrow> 0 \<le> sint fd"
  by (auto simp: lowest_free_def signed_of_nat signed_take_bit_int_eq_self
      split: option.splits if_splits)

lemma fold_max_ge: "n \<in> set ns \<or> n \<le> a \<Longrightarrow> n \<le> fold max ns (a :: nat)"
  by (induction ns arbitrary: a) (auto simp: le_max_iff_disj)

lemma fresh_object_notin: "fresh_object k \<notin> ran (map_of (fdt_fds k))"
proof
  assume "fresh_object k \<in> ran (map_of (fdt_fds k))"
  then obtain fd where "map_of (fdt_fds k) fd = Some (fresh_object k)"
    by (auto simp: ran_def)
  then have "fresh_object k \<in> set (map snd (fdt_fds k))"
    by (force dest: map_of_SomeD)
  then show False
    using fold_max_ge [of "fresh_object k" "map snd (fdt_fds k)" 0] by (simp add: fresh_object_def)
qed

lemma map_of_filter_key: "map_of (filter (\<lambda>(g, _). g \<noteq> fd) xs) = (map_of xs)(fd := None)"
  by (induction xs) auto

interpretation fd_kernel: eventfd_kernel table_kernel "\<lambda>k. map_of (fdt_fds k)" fdt_counter
  using fresh_object_notin
  by unfold_locales
    (auto simp: table_kernel_def table_eventfd_def table_write_def table_dup_def table_close_def
      map_of_filter_key dest: lowest_free_Some lowest_free_nonneg split: option.splits if_splits)

end
