(* ===== verification/Config.thy ===== *)
theory Config
  imports Radix Utf8
begin

text \<open>
  \<open>src/config.rs\<close>: the PHP class \<open>NetherGames\\Quiche\\Config\<close>, a set of getters and
  setters over tokio-quiche's \<open>QuicSettings\<close>. The fields of \<open>QuicSettings\<close> that the
  class touches are the record \<open>quic_settings\<close>; the values of \<open>QuicSettings::default()\<close>
  come from the library and are a parameter of the constructor.

  Three groups of accessors do more than move a value: the timeouts go through
  \<open>Duration\<close>, the ALPN list through bytes and \<open>from_utf8_lossy\<close>, and the stateless reset
  token through hexadecimal text, where a text that is not a \<open>u128\<close> is ignored.

  The last section reads the class the way a PHP script sees it: one table of settings, a
  read and a write for each, and the law that relates them for every pair of settings.
\<close>

subsection \<open>Durations\<close>

text \<open>\<open>std::time::Duration\<close>: seconds, and nanoseconds below one second.\<close>

datatype duration = Duration (dur_secs: u64) (dur_nanos: u32)

definition duration_from_millis :: "u64 \<Rightarrow> duration" where
  "duration_from_millis ms = Duration (ms div 1000) (ucast (ms mod 1000) * 1000000)"

definition duration_as_millis :: "duration \<Rightarrow> u128" where
  "duration_as_millis d = ucast (dur_secs d) * 1000 + ucast (dur_nanos d div 1000000)"

text \<open>\<open>f64\<close> values are only stored; they are kept as their bit pattern.\<close>

type_synonym f64 = "64 word"

subsection \<open>The settings and the class\<close>

record quic_settings =
  qs_alpn :: "bytes list"
  qs_enable_dgram :: "bool"
  qs_dgram_recv_max_queue_len :: "usize"
  qs_dgram_send_max_queue_len :: "usize"
  qs_enable_early_data :: "bool"
  qs_initial_max_data :: "u64"
  qs_initial_max_stream_data_bidi_local :: "u64"
  qs_initial_max_stream_data_bidi_remote :: "u64"
  qs_initial_max_stream_data_uni :: "u64"
  qs_initial_max_streams_bidi :: "u64"
  qs_initial_max_streams_uni :: "u64"
  qs_max_idle_timeout :: "duration option"
  qs_disable_active_migration :: "bool"
  qs_active_connection_id_limit :: "u64"
  qs_max_recv_udp_payload_size :: "usize"
  qs_max_send_udp_payload_size :: "usize"
  qs_disable_client_ip_validation :: "bool"
  qs_keylog_file :: "string option"
  qs_qlog_dir :: "string option"
  qs_cc_algorithm :: "string"
  qs_initial_congestion_window_packets :: "usize"
  qs_enable_relaxed_loss_threshold :: "bool"
  qs_discover_path_mtu :: "bool"
  qs_pmtud_max_probes :: "u8"
  qs_enable_hystart :: "bool"
  qs_enable_pacing :: "bool"
  qs_max_pacing_rate :: "u64 option"
  qs_enable_expensive_packet_count_metrics :: "bool"
  qs_capture_quiche_logs :: "bool"
  qs_handshake_timeout :: "duration option"
  qs_listen_backlog :: "usize"
  qs_verify_peer :: "bool"
  qs_max_connection_window :: "u64"
  qs_max_stream_window :: "u64"
  qs_enable_send_streams_blocked :: "bool"
  qs_grease :: "bool"
  qs_max_amplification_factor :: "usize"
  qs_send_capacity_factor :: "f64"
  qs_ack_delay_exponent :: "u64"
  qs_max_ack_delay :: "u64"
  qs_max_path_challenge_recv_queue_len :: "usize"
  qs_stateless_reset_token :: "u128 option"
  qs_disable_dcid_reuse :: "bool"
  qs_track_unknown_transport_parameters :: "usize option"

record config =
  cfg_inner :: quic_settings
  cfg_cert_path :: string
  cfg_key_path :: string

definition config_construct :: "quic_settings \<Rightarrow> string \<Rightarrow> string \<Rightarrow> config" where
  "config_construct dflt cert_path key_path =
     \<lparr>cfg_inner = dflt, cfg_cert_path = cert_path, cfg_key_path = key_path\<rparr>"

subsection \<open>Getters and setters\<close>

definition get_alpn :: "config \<Rightarrow> string list" where
  [config_defs]: "get_alpn c = map (\<lambda>v. string_of_bytes (from_utf8_lossy v)) (qs_alpn (cfg_inner c))"

definition set_alpn :: "string list \<Rightarrow> config \<Rightarrow> config" where
  [config_defs]: "set_alpn v c =
     c\<lparr>cfg_inner := (cfg_inner c)\<lparr>qs_alpn := map bytes_of_string v\<rparr>\<rparr>"

definition get_enable_dgram :: "config \<Rightarrow> bool" where
  [config_defs]: "get_enable_dgram c = qs_enable_dgram (cfg_inner c)"

definition set_enable_dgram :: "bool \<Rightarrow> config \<Rightarrow> config" where
  [config_defs]: "set_enable_dgram v c =
     c\<lparr>cfg_inner := (cfg_inner c)\<lparr>qs_enable_dgram := v\<rparr>\<rparr>"

definition get_dgram_recv_max_queue_len :: "config \<Rightarrow> usize" where
  [config_defs]: "get_dgram_recv_max_queue_len c = qs_dgram_recv_max_queue_len (cfg_inner c)"

definition set_dgram_recv_max_queue_len :: "usize \<Rightarrow> config \<Rightarrow> config" where
  [config_defs]: "set_dgram_recv_max_queue_len v c =
     c\<lparr>cfg_inner := (cfg_inner c)\<lparr>qs_dgram_recv_max_queue_len := v\<rparr>\<rparr>"

definition get_dgram_send_max_queue_len :: "config \<Rightarrow> usize" where
  [config_defs]: "get_dgram_send_max_queue_len c = qs_dgram_send_max_queue_len (cfg_inner c)"

definition set_dgram_send_max_queue_len :: "usize \<Rightarrow> config \<Rightarrow> config" where
  [config_defs]: "set_dgram_send_max_queue_len v c =
     c\<lparr>cfg_inner := (cfg_inner c)\<lparr>qs_dgram_send_max_queue_len := v\<rparr>\<rparr>"

definition get_enable_early_data :: "config \<Rightarrow> bool" where
  [config_defs]: "get_enable_early_data c = qs_enable_early_data (cfg_inner c)"

definition set_enable_early_data :: "bool \<Rightarrow> config \<Rightarrow> config" where
  [config_defs]: "set_enable_early_data v c =
     c\<lparr>cfg_inner := (cfg_inner c)\<lparr>qs_enable_early_data := v\<rparr>\<rparr>"

definition get_initial_max_data :: "config \<Rightarrow> u64" where
  [config_defs]: "get_initial_max_data c = qs_initial_max_data (cfg_inner c)"

definition set_initial_max_data :: "u64 \<Rightarrow> config \<Rightarrow> config" where
  [config_defs]: "set_initial_max_data v c =
     c\<lparr>cfg_inner := (cfg_inner c)\<lparr>qs_initial_max_data := v\<rparr>\<rparr>"

definition get_initial_max_stream_data_bidi_local :: "config \<Rightarrow> u64" where
  [config_defs]: "get_initial_max_stream_data_bidi_local c = qs_initial_max_stream_data_bidi_local (cfg_inner c)"

definition set_initial_max_stream_data_bidi_local :: "u64 \<Rightarrow> config \<Rightarrow> config" where
  [config_defs]: "set_initial_max_stream_data_bidi_local v c =
     c\<lparr>cfg_inner := (cfg_inner c)\<lparr>qs_initial_max_stream_data_bidi_local := v\<rparr>\<rparr>"

definition get_initial_max_stream_data_bidi_remote :: "config \<Rightarrow> u64" where
  [config_defs]: "get_initial_max_stream_data_bidi_remote c = qs_initial_max_stream_data_bidi_remote (cfg_inner c)"

definition set_initial_max_stream_data_bidi_remote :: "u64 \<Rightarrow> config \<Rightarrow> config" where
  [config_defs]: "set_initial_max_stream_data_bidi_remote v c =
     c\<lparr>cfg_inner := (cfg_inner c)\<lparr>qs_initial_max_stream_data_bidi_remote := v\<rparr>\<rparr>"

definition get_initial_max_stream_data_uni :: "config \<Rightarrow> u64" where
  [config_defs]: "get_initial_max_stream_data_uni c = qs_initial_max_stream_data_uni (cfg_inner c)"

definition set_initial_max_stream_data_uni :: "u64 \<Rightarrow> config \<Rightarrow> config" where
  [config_defs]: "set_initial_max_stream_data_uni v c =
     c\<lparr>cfg_inner := (cfg_inner c)\<lparr>qs_initial_max_stream_data_uni := v\<rparr>\<rparr>"

definition get_initial_max_streams_bidi :: "config \<Rightarrow> u64" where
  [config_defs]: "get_initial_max_streams_bidi c = qs_initial_max_streams_bidi (cfg_inner c)"

definition set_initial_max_streams_bidi :: "u64 \<Rightarrow> config \<Rightarrow> config" where
  [config_defs]: "set_initial_max_streams_bidi v c =
     c\<lparr>cfg_inner := (cfg_inner c)\<lparr>qs_initial_max_streams_bidi := v\<rparr>\<rparr>"

definition get_initial_max_streams_uni :: "config \<Rightarrow> u64" where
  [config_defs]: "get_initial_max_streams_uni c = qs_initial_max_streams_uni (cfg_inner c)"

definition set_initial_max_streams_uni :: "u64 \<Rightarrow> config \<Rightarrow> config" where
  [config_defs]: "set_initial_max_streams_uni v c =
     c\<lparr>cfg_inner := (cfg_inner c)\<lparr>qs_initial_max_streams_uni := v\<rparr>\<rparr>"

definition get_max_idle_timeout :: "config \<Rightarrow> u64 option" where
  [config_defs]: "get_max_idle_timeout c = map_option (\<lambda>d. ucast (duration_as_millis d)) (qs_max_idle_timeout (cfg_inner c))"

definition set_max_idle_timeout :: "u64 option \<Rightarrow> config \<Rightarrow> config" where
  [config_defs]: "set_max_idle_timeout v c =
     c\<lparr>cfg_inner := (cfg_inner c)\<lparr>qs_max_idle_timeout := map_option duration_from_millis v\<rparr>\<rparr>"

definition get_disable_active_migration :: "config \<Rightarrow> bool" where
  [config_defs]: "get_disable_active_migration c = qs_disable_active_migration (cfg_inner c)"

definition set_disable_active_migration :: "bool \<Rightarrow> config \<Rightarrow> config" where
  [config_defs]: "set_disable_active_migration v c =
     c\<lparr>cfg_inner := (cfg_inner c)\<lparr>qs_disable_active_migration := v\<rparr>\<rparr>"

definition get_active_connection_id_limit :: "config \<Rightarrow> u64" where
  [config_defs]: "get_active_connection_id_limit c = qs_active_connection_id_limit (cfg_inner c)"

definition set_active_connection_id_limit :: "u64 \<Rightarrow> config \<Rightarrow> config" where
  [config_defs]: "set_active_connection_id_limit v c =
     c\<lparr>cfg_inner := (cfg_inner c)\<lparr>qs_active_connection_id_limit := v\<rparr>\<rparr>"

definition get_max_recv_udp_payload_size :: "config \<Rightarrow> usize" where
  [config_defs]: "get_max_recv_udp_payload_size c = qs_max_recv_udp_payload_size (cfg_inner c)"

definition set_max_recv_udp_payload_size :: "usize \<Rightarrow> config \<Rightarrow> config" where
  [config_defs]: "set_max_recv_udp_payload_size v c =
     c\<lparr>cfg_inner := (cfg_inner c)\<lparr>qs_max_recv_udp_payload_size := v\<rparr>\<rparr>"

definition get_max_send_udp_payload_size :: "config \<Rightarrow> usize" where
  [config_defs]: "get_max_send_udp_payload_size c = qs_max_send_udp_payload_size (cfg_inner c)"

definition set_max_send_udp_payload_size :: "usize \<Rightarrow> config \<Rightarrow> config" where
  [config_defs]: "set_max_send_udp_payload_size v c =
     c\<lparr>cfg_inner := (cfg_inner c)\<lparr>qs_max_send_udp_payload_size := v\<rparr>\<rparr>"

definition get_disable_client_ip_validation :: "config \<Rightarrow> bool" where
  [config_defs]: "get_disable_client_ip_validation c = qs_disable_client_ip_validation (cfg_inner c)"

definition set_disable_client_ip_validation :: "bool \<Rightarrow> config \<Rightarrow> config" where
  [config_defs]: "set_disable_client_ip_validation v c =
     c\<lparr>cfg_inner := (cfg_inner c)\<lparr>qs_disable_client_ip_validation := v\<rparr>\<rparr>"

definition get_keylog_file :: "config \<Rightarrow> string option" where
  [config_defs]: "get_keylog_file c = qs_keylog_file (cfg_inner c)"

definition set_keylog_file :: "string option \<Rightarrow> config \<Rightarrow> config" where
  [config_defs]: "set_keylog_file v c =
     c\<lparr>cfg_inner := (cfg_inner c)\<lparr>qs_keylog_file := v\<rparr>\<rparr>"

definition get_qlog_dir :: "config \<Rightarrow> string option" where
  [config_defs]: "get_qlog_dir c = qs_qlog_dir (cfg_inner c)"

definition set_qlog_dir :: "string option \<Rightarrow> config \<Rightarrow> config" where
  [config_defs]: "set_qlog_dir v c =
     c\<lparr>cfg_inner := (cfg_inner c)\<lparr>qs_qlog_dir := v\<rparr>\<rparr>"

definition get_cc_algorithm :: "config \<Rightarrow> string" where
  [config_defs]: "get_cc_algorithm c = qs_cc_algorithm (cfg_inner c)"

definition set_cc_algorithm :: "string \<Rightarrow> config \<Rightarrow> config" where
  [config_defs]: "set_cc_algorithm v c =
     c\<lparr>cfg_inner := (cfg_inner c)\<lparr>qs_cc_algorithm := v\<rparr>\<rparr>"

definition get_initial_congestion_window_packets :: "config \<Rightarrow> usize" where
  [config_defs]: "get_initial_congestion_window_packets c = qs_initial_congestion_window_packets (cfg_inner c)"

definition set_initial_congestion_window_packets :: "usize \<Rightarrow> config \<Rightarrow> config" where
  [config_defs]: "set_initial_congestion_window_packets v c =
     c\<lparr>cfg_inner := (cfg_inner c)\<lparr>qs_initial_congestion_window_packets := v\<rparr>\<rparr>"

definition get_enable_relaxed_loss_threshold :: "config \<Rightarrow> bool" where
  [config_defs]: "get_enable_relaxed_loss_threshold c = qs_enable_relaxed_loss_threshold (cfg_inner c)"

definition set_enable_relaxed_loss_threshold :: "bool \<Rightarrow> config \<Rightarrow> config" where
  [config_defs]: "set_enable_relaxed_loss_threshold v c =
     c\<lparr>cfg_inner := (cfg_inner c)\<lparr>qs_enable_relaxed_loss_threshold := v\<rparr>\<rparr>"

definition get_discover_path_mtu :: "config \<Rightarrow> bool" where
  [config_defs]: "get_discover_path_mtu c = qs_discover_path_mtu (cfg_inner c)"

definition set_discover_path_mtu :: "bool \<Rightarrow> config \<Rightarrow> config" where
  [config_defs]: "set_discover_path_mtu v c =
     c\<lparr>cfg_inner := (cfg_inner c)\<lparr>qs_discover_path_mtu := v\<rparr>\<rparr>"

definition get_pmtud_max_probes :: "config \<Rightarrow> u8" where
  [config_defs]: "get_pmtud_max_probes c = qs_pmtud_max_probes (cfg_inner c)"

definition set_pmtud_max_probes :: "u8 \<Rightarrow> config \<Rightarrow> config" where
  [config_defs]: "set_pmtud_max_probes v c =
     c\<lparr>cfg_inner := (cfg_inner c)\<lparr>qs_pmtud_max_probes := v\<rparr>\<rparr>"

definition get_enable_hystart :: "config \<Rightarrow> bool" where
  [config_defs]: "get_enable_hystart c = qs_enable_hystart (cfg_inner c)"

definition set_enable_hystart :: "bool \<Rightarrow> config \<Rightarrow> config" where
  [config_defs]: "set_enable_hystart v c =
     c\<lparr>cfg_inner := (cfg_inner c)\<lparr>qs_enable_hystart := v\<rparr>\<rparr>"

definition get_enable_pacing :: "config \<Rightarrow> bool" where
  [config_defs]: "get_enable_pacing c = qs_enable_pacing (cfg_inner c)"

definition set_enable_pacing :: "bool \<Rightarrow> config \<Rightarrow> config" where
  [config_defs]: "set_enable_pacing v c =
     c\<lparr>cfg_inner := (cfg_inner c)\<lparr>qs_enable_pacing := v\<rparr>\<rparr>"

definition get_max_pacing_rate :: "config \<Rightarrow> u64 option" where
  [config_defs]: "get_max_pacing_rate c = qs_max_pacing_rate (cfg_inner c)"

definition set_max_pacing_rate :: "u64 option \<Rightarrow> config \<Rightarrow> config" where
  [config_defs]: "set_max_pacing_rate v c =
     c\<lparr>cfg_inner := (cfg_inner c)\<lparr>qs_max_pacing_rate := v\<rparr>\<rparr>"

definition get_enable_expensive_packet_count_metrics :: "config \<Rightarrow> bool" where
  [config_defs]: "get_enable_expensive_packet_count_metrics c = qs_enable_expensive_packet_count_metrics (cfg_inner c)"

definition set_enable_expensive_packet_count_metrics :: "bool \<Rightarrow> config \<Rightarrow> config" where
  [config_defs]: "set_enable_expensive_packet_count_metrics v c =
     c\<lparr>cfg_inner := (cfg_inner c)\<lparr>qs_enable_expensive_packet_count_metrics := v\<rparr>\<rparr>"

definition get_capture_quiche_logs :: "config \<Rightarrow> bool" where
  [config_defs]: "get_capture_quiche_logs c = qs_capture_quiche_logs (cfg_inner c)"

definition set_capture_quiche_logs :: "bool \<Rightarrow> config \<Rightarrow> config" where
  [config_defs]: "set_capture_quiche_logs v c =
     c\<lparr>cfg_inner := (cfg_inner c)\<lparr>qs_capture_quiche_logs := v\<rparr>\<rparr>"

definition get_handshake_timeout :: "config \<Rightarrow> u64 option" where
  [config_defs]: "get_handshake_timeout c = map_option (\<lambda>d. ucast (duration_as_millis d)) (qs_handshake_timeout (cfg_inner c))"

definition set_handshake_timeout :: "u64 option \<Rightarrow> config \<Rightarrow> config" where
  [config_defs]: "set_handshake_timeout v c =
     c\<lparr>cfg_inner := (cfg_inner c)\<lparr>qs_handshake_timeout := map_option duration_from_millis v\<rparr>\<rparr>"

definition get_listen_backlog :: "config \<Rightarrow> usize" where
  [config_defs]: "get_listen_backlog c = qs_listen_backlog (cfg_inner c)"

definition set_listen_backlog :: "usize \<Rightarrow> config \<Rightarrow> config" where
  [config_defs]: "set_listen_backlog v c =
     c\<lparr>cfg_inner := (cfg_inner c)\<lparr>qs_listen_backlog := v\<rparr>\<rparr>"

definition get_verify_peer :: "config \<Rightarrow> bool" where
  [config_defs]: "get_verify_peer c = qs_verify_peer (cfg_inner c)"

definition set_verify_peer :: "bool \<Rightarrow> config \<Rightarrow> config" where
  [config_defs]: "set_verify_peer v c =
     c\<lparr>cfg_inner := (cfg_inner c)\<lparr>qs_verify_peer := v\<rparr>\<rparr>"

definition get_max_connection_window :: "config \<Rightarrow> u64" where
  [config_defs]: "get_max_connection_window c = qs_max_connection_window (cfg_inner c)"

definition set_max_connection_window :: "u64 \<Rightarrow> config \<Rightarrow> config" where
  [config_defs]: "set_max_connection_window v c =
     c\<lparr>cfg_inner := (cfg_inner c)\<lparr>qs_max_connection_window := v\<rparr>\<rparr>"

definition get_max_stream_window :: "config \<Rightarrow> u64" where
  [config_defs]: "get_max_stream_window c = qs_max_stream_window (cfg_inner c)"

definition set_max_stream_window :: "u64 \<Rightarrow> config \<Rightarrow> config" where
  [config_defs]: "set_max_stream_window v c =
     c\<lparr>cfg_inner := (cfg_inner c)\<lparr>qs_max_stream_window := v\<rparr>\<rparr>"

definition get_enable_send_streams_blocked :: "config \<Rightarrow> bool" where
  [config_defs]: "get_enable_send_streams_blocked c = qs_enable_send_streams_blocked (cfg_inner c)"

definition set_enable_send_streams_blocked :: "bool \<Rightarrow> config \<Rightarrow> config" where
  [config_defs]: "set_enable_send_streams_blocked v c =
     c\<lparr>cfg_inner := (cfg_inner c)\<lparr>qs_enable_send_streams_blocked := v\<rparr>\<rparr>"

definition get_grease :: "config \<Rightarrow> bool" where
  [config_defs]: "get_grease c = qs_grease (cfg_inner c)"

definition set_grease :: "bool \<Rightarrow> config \<Rightarrow> config" where
  [config_defs]: "set_grease v c =
     c\<lparr>cfg_inner := (cfg_inner c)\<lparr>qs_grease := v\<rparr>\<rparr>"

definition get_max_amplification_factor :: "config \<Rightarrow> usize" where
  [config_defs]: "get_max_amplification_factor c = qs_max_amplification_factor (cfg_inner c)"

definition set_max_amplification_factor :: "usize \<Rightarrow> config \<Rightarrow> config" where
  [config_defs]: "set_max_amplification_factor v c =
     c\<lparr>cfg_inner := (cfg_inner c)\<lparr>qs_max_amplification_factor := v\<rparr>\<rparr>"

definition get_send_capacity_factor :: "config \<Rightarrow> f64" where
  [config_defs]: "get_send_capacity_factor c = qs_send_capacity_factor (cfg_inner c)"

definition set_send_capacity_factor :: "f64 \<Rightarrow> config \<Rightarrow> config" where
  [config_defs]: "set_send_capacity_factor v c =
     c\<lparr>cfg_inner := (cfg_inner c)\<lparr>qs_send_capacity_factor := v\<rparr>\<rparr>"

definition get_ack_delay_exponent :: "config \<Rightarrow> u64" where
  [config_defs]: "get_ack_delay_exponent c = qs_ack_delay_exponent (cfg_inner c)"

definition set_ack_delay_exponent :: "u64 \<Rightarrow> config \<Rightarrow> config" where
  [config_defs]: "set_ack_delay_exponent v c =
     c\<lparr>cfg_inner := (cfg_inner c)\<lparr>qs_ack_delay_exponent := v\<rparr>\<rparr>"

definition get_max_ack_delay :: "config \<Rightarrow> u64" where
  [config_defs]: "get_max_ack_delay c = qs_max_ack_delay (cfg_inner c)"

definition set_max_ack_delay :: "u64 \<Rightarrow> config \<Rightarrow> config" where
  [config_defs]: "set_max_ack_delay v c =
     c\<lparr>cfg_inner := (cfg_inner c)\<lparr>qs_max_ack_delay := v\<rparr>\<rparr>"

definition get_max_path_challenge_recv_queue_len :: "config \<Rightarrow> usize" where
  [config_defs]: "get_max_path_challenge_recv_queue_len c = qs_max_path_challenge_recv_queue_len (cfg_inner c)"

definition set_max_path_challenge_recv_queue_len :: "usize \<Rightarrow> config \<Rightarrow> config" where
  [config_defs]: "set_max_path_challenge_recv_queue_len v c =
     c\<lparr>cfg_inner := (cfg_inner c)\<lparr>qs_max_path_challenge_recv_queue_len := v\<rparr>\<rparr>"

definition get_stateless_reset_token :: "config \<Rightarrow> string option" where
  [config_defs]: "get_stateless_reset_token c = map_option print_hex_u128 (qs_stateless_reset_token (cfg_inner c))"

definition set_stateless_reset_token :: "string option \<Rightarrow> config \<Rightarrow> config" where
  [config_defs]: "set_stateless_reset_token v c =
     (case v of
        Some token_str \<Rightarrow>
          (case parse_hex_u128 token_str of
             Some t \<Rightarrow> c\<lparr>cfg_inner := (cfg_inner c)\<lparr>qs_stateless_reset_token := Some t\<rparr>\<rparr>
           | None \<Rightarrow> c)
      | None \<Rightarrow> c\<lparr>cfg_inner := (cfg_inner c)\<lparr>qs_stateless_reset_token := None\<rparr>\<rparr>)"

definition get_disable_dcid_reuse :: "config \<Rightarrow> bool" where
  [config_defs]: "get_disable_dcid_reuse c = qs_disable_dcid_reuse (cfg_inner c)"

definition set_disable_dcid_reuse :: "bool \<Rightarrow> config \<Rightarrow> config" where
  [config_defs]: "set_disable_dcid_reuse v c =
     c\<lparr>cfg_inner := (cfg_inner c)\<lparr>qs_disable_dcid_reuse := v\<rparr>\<rparr>"

definition get_track_unknown_transport_parameters :: "config \<Rightarrow> usize option" where
  [config_defs]: "get_track_unknown_transport_parameters c = qs_track_unknown_transport_parameters (cfg_inner c)"

definition set_track_unknown_transport_parameters :: "usize option \<Rightarrow> config \<Rightarrow> config" where
  [config_defs]: "set_track_unknown_transport_parameters v c =
     c\<lparr>cfg_inner := (cfg_inner c)\<lparr>qs_track_unknown_transport_parameters := v\<rparr>\<rparr>"

definition get_key_path :: "config \<Rightarrow> string" where
  [config_defs]: "get_key_path c = cfg_key_path c"

definition set_key_path :: "string \<Rightarrow> config \<Rightarrow> config" where
  [config_defs]: "set_key_path v c = c\<lparr>cfg_key_path := v\<rparr>"

definition get_cert_path :: "config \<Rightarrow> string" where
  [config_defs]: "get_cert_path c = cfg_cert_path c"

definition set_cert_path :: "string \<Rightarrow> config \<Rightarrow> config" where
  [config_defs]: "set_cert_path v c = c\<lparr>cfg_cert_path := v\<rparr>"

subsection \<open>The class as a table of settings\<close>

datatype setting =
    Alpn
  | EnableDgram
  | DgramRecvMaxQueueLen
  | DgramSendMaxQueueLen
  | EnableEarlyData
  | InitialMaxData
  | InitialMaxStreamDataBidiLocal
  | InitialMaxStreamDataBidiRemote
  | InitialMaxStreamDataUni
  | InitialMaxStreamsBidi
  | InitialMaxStreamsUni
  | MaxIdleTimeout
  | DisableActiveMigration
  | ActiveConnectionIdLimit
  | MaxRecvUdpPayloadSize
  | MaxSendUdpPayloadSize
  | DisableClientIpValidation
  | KeylogFile
  | QlogDir
  | CcAlgorithm
  | InitialCongestionWindowPackets
  | EnableRelaxedLossThreshold
  | DiscoverPathMtu
  | PmtudMaxProbes
  | EnableHystart
  | EnablePacing
  | MaxPacingRate
  | EnableExpensivePacketCountMetrics
  | CaptureQuicheLogs
  | HandshakeTimeout
  | ListenBacklog
  | VerifyPeer
  | MaxConnectionWindow
  | MaxStreamWindow
  | EnableSendStreamsBlocked
  | Grease
  | MaxAmplificationFactor
  | SendCapacityFactor
  | AckDelayExponent
  | MaxAckDelay
  | MaxPathChallengeRecvQueueLen
  | StatelessResetToken
  | DisableDcidReuse
  | TrackUnknownTransportParameters
  | KeyPath
  | CertPath

datatype setting_value =
    VBool bool
  | VByte u8
  | VWord u64
  | VOptWord "u64 option"
  | VFloat f64
  | VStr string
  | VOptStr "string option"
  | VStrs "string list"

fun read_setting :: "setting \<Rightarrow> config \<Rightarrow> setting_value" where
  "read_setting Alpn c = VStrs (get_alpn c)"
| "read_setting EnableDgram c = VBool (get_enable_dgram c)"
| "read_setting DgramRecvMaxQueueLen c = VWord (get_dgram_recv_max_queue_len c)"
| "read_setting DgramSendMaxQueueLen c = VWord (get_dgram_send_max_queue_len c)"
| "read_setting EnableEarlyData c = VBool (get_enable_early_data c)"
| "read_setting InitialMaxData c = VWord (get_initial_max_data c)"
| "read_setting InitialMaxStreamDataBidiLocal c = VWord (get_initial_max_stream_data_bidi_local c)"
| "read_setting InitialMaxStreamDataBidiRemote c = VWord (get_initial_max_stream_data_bidi_remote c)"
| "read_setting InitialMaxStreamDataUni c = VWord (get_initial_max_stream_data_uni c)"
| "read_setting InitialMaxStreamsBidi c = VWord (get_initial_max_streams_bidi c)"
| "read_setting InitialMaxStreamsUni c = VWord (get_initial_max_streams_uni c)"
| "read_setting MaxIdleTimeout c = VOptWord (get_max_idle_timeout c)"
| "read_setting DisableActiveMigration c = VBool (get_disable_active_migration c)"
| "read_setting ActiveConnectionIdLimit c = VWord (get_active_connection_id_limit c)"
| "read_setting MaxRecvUdpPayloadSize c = VWord (get_max_recv_udp_payload_size c)"
| "read_setting MaxSendUdpPayloadSize c = VWord (get_max_send_udp_payload_size c)"
| "read_setting DisableClientIpValidation c = VBool (get_disable_client_ip_validation c)"
| "read_setting KeylogFile c = VOptStr (get_keylog_file c)"
| "read_setting QlogDir c = VOptStr (get_qlog_dir c)"
| "read_setting CcAlgorithm c = VStr (get_cc_algorithm c)"
| "read_setting InitialCongestionWindowPackets c = VWord (get_initial_congestion_window_packets c)"
| "read_setting EnableRelaxedLossThreshold c = VBool (get_enable_relaxed_loss_threshold c)"
| "read_setting DiscoverPathMtu c = VBool (get_discover_path_mtu c)"
| "read_setting PmtudMaxProbes c = VByte (get_pmtud_max_probes c)"
| "read_setting EnableHystart c = VBool (get_enable_hystart c)"
| "read_setting EnablePacing c = VBool (get_enable_pacing c)"
| "read_setting MaxPacingRate c = VOptWord (get_max_pacing_rate c)"
| "read_setting EnableExpensivePacketCountMetrics c = VBool (get_enable_expensive_packet_count_metrics c)"
| "read_setting CaptureQuicheLogs c = VBool (get_capture_quiche_logs c)"
| "read_setting HandshakeTimeout c = VOptWord (get_handshake_timeout c)"
| "read_setting ListenBacklog c = VWord (get_listen_backlog c)"
| "read_setting VerifyPeer c = VBool (get_verify_peer c)"
| "read_setting MaxConnectionWindow c = VWord (get_max_connection_window c)"
| "read_setting MaxStreamWindow c = VWord (get_max_stream_window c)"
| "read_setting EnableSendStreamsBlocked c = VBool (get_enable_send_streams_blocked c)"
| "read_setting Grease c = VBool (get_grease c)"
| "read_setting MaxAmplificationFactor c = VWord (get_max_amplification_factor c)"
| "read_setting SendCapacityFactor c = VFloat (get_send_capacity_factor c)"
| "read_setting AckDelayExponent c = VWord (get_ack_delay_exponent c)"
| "read_setting MaxAckDelay c = VWord (get_max_ack_delay c)"
| "read_setting MaxPathChallengeRecvQueueLen c = VWord (get_max_path_challenge_recv_queue_len c)"
| "read_setting StatelessResetToken c = VOptStr (get_stateless_reset_token c)"
| "read_setting DisableDcidReuse c = VBool (get_disable_dcid_reuse c)"
| "read_setting TrackUnknownTransportParameters c = VOptWord (get_track_unknown_transport_parameters c)"
| "read_setting KeyPath c = VStr (get_key_path c)"
| "read_setting CertPath c = VStr (get_cert_path c)"

text \<open>A value of the wrong type never reaches a setter: the call is rejected before it.\<close>

fun write_setting :: "setting \<Rightarrow> setting_value \<Rightarrow> config \<Rightarrow> config" where
  "write_setting Alpn v c = (case v of VStrs x \<Rightarrow> set_alpn x c | _ \<Rightarrow> c)"
| "write_setting EnableDgram v c = (case v of VBool x \<Rightarrow> set_enable_dgram x c | _ \<Rightarrow> c)"
| "write_setting DgramRecvMaxQueueLen v c = (case v of VWord x \<Rightarrow> set_dgram_recv_max_queue_len x c | _ \<Rightarrow> c)"
| "write_setting DgramSendMaxQueueLen v c = (case v of VWord x \<Rightarrow> set_dgram_send_max_queue_len x c | _ \<Rightarrow> c)"
| "write_setting EnableEarlyData v c = (case v of VBool x \<Rightarrow> set_enable_early_data x c | _ \<Rightarrow> c)"
| "write_setting InitialMaxData v c = (case v of VWord x \<Rightarrow> set_initial_max_data x c | _ \<Rightarrow> c)"
| "write_setting InitialMaxStreamDataBidiLocal v c = (case v of VWord x \<Rightarrow> set_initial_max_stream_data_bidi_local x c | _ \<Rightarrow> c)"
| "write_setting InitialMaxStreamDataBidiRemote v c = (case v of VWord x \<Rightarrow> set_initial_max_stream_data_bidi_remote x c | _ \<Rightarrow> c)"
| "write_setting InitialMaxStreamDataUni v c = (case v of VWord x \<Rightarrow> set_initial_max_stream_data_uni x c | _ \<Rightarrow> c)"
| "write_setting InitialMaxStreamsBidi v c = (case v of VWord x \<Rightarrow> set_initial_max_streams_bidi x c | _ \<Rightarrow> c)"
| "write_setting InitialMaxStreamsUni v c = (case v of VWord x \<Rightarrow> set_initial_max_streams_uni x c | _ \<Rightarrow> c)"
| "write_setting MaxIdleTimeout v c = (case v of VOptWord x \<Rightarrow> set_max_idle_timeout x c | _ \<Rightarrow> c)"
| "write_setting DisableActiveMigration v c = (case v of VBool x \<Rightarrow> set_disable_active_migration x c | _ \<Rightarrow> c)"
| "write_setting ActiveConnectionIdLimit v c = (case v of VWord x \<Rightarrow> set_active_connection_id_limit x c | _ \<Rightarrow> c)"
| "write_setting MaxRecvUdpPayloadSize v c = (case v of VWord x \<Rightarrow> set_max_recv_udp_payload_size x c | _ \<Rightarrow> c)"
| "write_setting MaxSendUdpPayloadSize v c = (case v of VWord x \<Rightarrow> set_max_send_udp_payload_size x c | _ \<Rightarrow> c)"
| "write_setting DisableClientIpValidation v c = (case v of VBool x \<Rightarrow> set_disable_client_ip_validation x c | _ \<Rightarrow> c)"
| "write_setting KeylogFile v c = (case v of VOptStr x \<Rightarrow> set_keylog_file x c | _ \<Rightarrow> c)"
| "write_setting QlogDir v c = (case v of VOptStr x \<Rightarrow> set_qlog_dir x c | _ \<Rightarrow> c)"
| "write_setting CcAlgorithm v c = (case v of VStr x \<Rightarrow> set_cc_algorithm x c | _ \<Rightarrow> c)"
| "write_setting InitialCongestionWindowPackets v c = (case v of VWord x \<Rightarrow> set_initial_congestion_window_packets x c | _ \<Rightarrow> c)"
| "write_setting EnableRelaxedLossThreshold v c = (case v of VBool x \<Rightarrow> set_enable_relaxed_loss_threshold x c | _ \<Rightarrow> c)"
| "write_setting DiscoverPathMtu v c = (case v of VBool x \<Rightarrow> set_discover_path_mtu x c | _ \<Rightarrow> c)"
| "write_setting PmtudMaxProbes v c = (case v of VByte x \<Rightarrow> set_pmtud_max_probes x c | _ \<Rightarrow> c)"
| "write_setting EnableHystart v c = (case v of VBool x \<Rightarrow> set_enable_hystart x c | _ \<Rightarrow> c)"
| "write_setting EnablePacing v c = (case v of VBool x \<Rightarrow> set_enable_pacing x c | _ \<Rightarrow> c)"
| "write_setting MaxPacingRate v c = (case v of VOptWord x \<Rightarrow> set_max_pacing_rate x c | _ \<Rightarrow> c)"
| "write_setting EnableExpensivePacketCountMetrics v c = (case v of VBool x \<Rightarrow> set_enable_expensive_packet_count_metrics x c | _ \<Rightarrow> c)"
| "write_setting CaptureQuicheLogs v c = (case v of VBool x \<Rightarrow> set_capture_quiche_logs x c | _ \<Rightarrow> c)"
| "write_setting HandshakeTimeout v c = (case v of VOptWord x \<Rightarrow> set_handshake_timeout x c | _ \<Rightarrow> c)"
| "write_setting ListenBacklog v c = (case v of VWord x \<Rightarrow> set_listen_backlog x c | _ \<Rightarrow> c)"
| "write_setting VerifyPeer v c = (case v of VBool x \<Rightarrow> set_verify_peer x c | _ \<Rightarrow> c)"
| "write_setting MaxConnectionWindow v c = (case v of VWord x \<Rightarrow> set_max_connection_window x c | _ \<Rightarrow> c)"
| "write_setting MaxStreamWindow v c = (case v of VWord x \<Rightarrow> set_max_stream_window x c | _ \<Rightarrow> c)"
| "write_setting EnableSendStreamsBlocked v c = (case v of VBool x \<Rightarrow> set_enable_send_streams_blocked x c | _ \<Rightarrow> c)"
| "write_setting Grease v c = (case v of VBool x \<Rightarrow> set_grease x c | _ \<Rightarrow> c)"
| "write_setting MaxAmplificationFactor v c = (case v of VWord x \<Rightarrow> set_max_amplification_factor x c | _ \<Rightarrow> c)"
| "write_setting SendCapacityFactor v c = (case v of VFloat x \<Rightarrow> set_send_capacity_factor x c | _ \<Rightarrow> c)"
| "write_setting AckDelayExponent v c = (case v of VWord x \<Rightarrow> set_ack_delay_exponent x c | _ \<Rightarrow> c)"
| "write_setting MaxAckDelay v c = (case v of VWord x \<Rightarrow> set_max_ack_delay x c | _ \<Rightarrow> c)"
| "write_setting MaxPathChallengeRecvQueueLen v c = (case v of VWord x \<Rightarrow> set_max_path_challenge_recv_queue_len x c | _ \<Rightarrow> c)"
| "write_setting StatelessResetToken v c = (case v of VOptStr x \<Rightarrow> set_stateless_reset_token x c | _ \<Rightarrow> c)"
| "write_setting DisableDcidReuse v c = (case v of VBool x \<Rightarrow> set_disable_dcid_reuse x c | _ \<Rightarrow> c)"
| "write_setting TrackUnknownTransportParameters v c = (case v of VOptWord x \<Rightarrow> set_track_unknown_transport_parameters x c | _ \<Rightarrow> c)"
| "write_setting KeyPath v c = (case v of VStr x \<Rightarrow> set_key_path x c | _ \<Rightarrow> c)"
| "write_setting CertPath v c = (case v of VStr x \<Rightarrow> set_cert_path x c | _ \<Rightarrow> c)"

datatype setting_type = TBool | TByte | TWord | TOptWord | TFloat | TStr | TOptStr | TStrs

fun type_of_value :: "setting_value \<Rightarrow> setting_type" where
  "type_of_value (VBool _) = TBool"
| "type_of_value (VByte _) = TByte"
| "type_of_value (VWord _) = TWord"
| "type_of_value (VOptWord _) = TOptWord"
| "type_of_value (VFloat _) = TFloat"
| "type_of_value (VStr _) = TStr"
| "type_of_value (VOptStr _) = TOptStr"
| "type_of_value (VStrs _) = TStrs"

text \<open>
  What a read returns after a write of \<open>v\<close>; \<open>old\<close> is what it returned before, and has
  the type of the setting.
\<close>

definition read_back :: "setting \<Rightarrow> setting_value \<Rightarrow> setting_value \<Rightarrow> setting_value" where
  "read_back s v old =
     (if type_of_value v \<noteq> type_of_value old then old
      else case v of
        VOptStr (Some x) \<Rightarrow>
          if s = StatelessResetToken
          then (case parse_hex_u128 x of Some t \<Rightarrow> VOptStr (Some (print_hex_u128 t)) | None \<Rightarrow> old)
          else v
      | VStrs xs \<Rightarrow> VStrs (map (\<lambda>x. string_of_bytes (from_utf8_lossy (bytes_of_string x))) xs)
      | _ \<Rightarrow> v)"

subsection \<open>The timeouts survive the trip through \<open>Duration\<close>\<close>

lemma unat_nanos: "unat (dur_nanos (duration_from_millis ms)) = unat ms mod 1000 * 1000000"
proof -
  have "unat ms mod 1000 < 1000" by simp
  then show ?thesis
    by (simp add: duration_from_millis_def unat_word_ariths unat_mod unsigned_ucast_eq
        take_bit_eq_mod)
qed

lemma unat_as_millis: "unat (duration_as_millis (duration_from_millis ms)) = unat ms"
proof -
  let ?d = "duration_from_millis ms"
  have s: "unat (dur_secs ?d) = unat ms div 1000"
    by (simp add: duration_from_millis_def unat_div)
  have "unat ms div 1000 * 1000 + unat ms mod 1000 < 2 ^ 64"
    using unsigned_less [of ms, where 'a = nat] by simp
  then have "unat ms div 1000 * 1000 + unat ms mod 1000 < 2 ^ 128" by simp
  with s unat_nanos [of ms] show ?thesis
    by (simp add: duration_as_millis_def unat_word_ariths unat_div unsigned_ucast_eq
        take_bit_eq_mod)
qed

lemma duration_millis_id [simp]: "ucast (duration_as_millis (duration_from_millis ms)) = ms"
  using unsigned_less [of ms, where 'a = nat]
  by (intro unsigned_word_eqI [where 'a = nat])
    (simp add: unat_as_millis unsigned_ucast_eq take_bit_eq_mod)

subsection \<open>A table of settings as an interface\<close>

text \<open>
  What a script that configures a server relies on: a write shows in the next read of the
  same setting, through \<open>stored\<close>, and in no other. The client's lemma follows any sequence
  of writes.
\<close>

locale settings_table =
  fixes rd :: "'k \<Rightarrow> 's \<Rightarrow> 'v"
    and wr :: "'k \<Rightarrow> 'v \<Rightarrow> 's \<Rightarrow> 's"
    and stored :: "'k \<Rightarrow> 'v \<Rightarrow> 'v \<Rightarrow> 'v"
  assumes rd_wr: "rd k (wr k v s) = stored k v (rd k s)"
    and rd_wr_other: "j \<noteq> k \<Longrightarrow> rd j (wr k v s) = rd j s"
begin

lemma read_after_writes:
  "rd j (fold (\<lambda>(k, v). wr k v) ws s) =
     fold (\<lambda>(k, v) old. stored k v old) (filter (\<lambda>(k, v). k = j) ws) (rd j s)"
  by (induction ws arbitrary: s) (auto simp: rd_wr rd_wr_other)

end

lemma read_setting_write_same:
  "read_setting s (write_setting s v c) = read_back s v (read_setting s c)"
  by (cases s; cases v)
    (simp_all add: config_defs read_back_def option.map_comp comp_def option.map_ident
      split: option.split)

lemma read_setting_write_other:
  assumes "s \<noteq> t"
  shows "read_setting t (write_setting s v c) = read_setting t c"
  using assms
  by (cases s; cases t) (simp_all add: config_defs split: setting_value.split option.split)

interpretation cfg: settings_table read_setting write_setting read_back
  by unfold_locales (simp_all add: read_setting_write_same read_setting_write_other)

end
