(* ===== verification/Config_Correct.thy ===== *)
theory Config_Correct
  imports Config
begin

text \<open>
  The properties of \<open>src/config.rs\<close>: what a getter returns after a setter, for every pair of
  settings, and the three settings that are translated on the way (the timeouts, the ALPN list
  and the stateless reset token).
\<close>

text \<open>A configuration to evaluate the properties on; all defaults are zero or empty.\<close>

definition demo_settings :: quic_settings where
  "demo_settings =
     \<lparr>qs_alpn = [[104, 51]], qs_enable_dgram = True, qs_dgram_recv_max_queue_len = 0,
      qs_dgram_send_max_queue_len = 0, qs_enable_early_data = False, qs_initial_max_data = 0,
      qs_initial_max_stream_data_bidi_local = 0, qs_initial_max_stream_data_bidi_remote = 0,
      qs_initial_max_stream_data_uni = 0, qs_initial_max_streams_bidi = 0,
      qs_initial_max_streams_uni = 0, qs_max_idle_timeout = None,
      qs_disable_active_migration = False, qs_active_connection_id_limit = 2,
      qs_max_recv_udp_payload_size = 0, qs_max_send_udp_payload_size = 0,
      qs_disable_client_ip_validation = False, qs_keylog_file = None, qs_qlog_dir = None,
      qs_cc_algorithm = ''cubic'', qs_initial_congestion_window_packets = 10,
      qs_enable_relaxed_loss_threshold = False, qs_discover_path_mtu = False,
      qs_pmtud_max_probes = 0, qs_enable_hystart = True, qs_enable_pacing = True,
      qs_max_pacing_rate = None, qs_enable_expensive_packet_count_metrics = False,
      qs_capture_quiche_logs = False, qs_handshake_timeout = None, qs_listen_backlog = 0,
      qs_verify_peer = False, qs_max_connection_window = 0, qs_max_stream_window = 0,
      qs_enable_send_streams_blocked = False, qs_grease = True, qs_max_amplification_factor = 3,
      qs_send_capacity_factor = 0, qs_ack_delay_exponent = 3, qs_max_ack_delay = 25,
      qs_max_path_challenge_recv_queue_len = 3, qs_stateless_reset_token = None,
      qs_disable_dcid_reuse = False, qs_track_unknown_transport_parameters = None\<rparr>"

definition demo_config :: config where
  "demo_config = config_construct demo_settings ''cert.pem'' ''key.pem''"

lemma only_alpn_is_a_list: "type_of_value (read_setting t c) = TStrs \<longleftrightarrow> t = Alpn"
  by (cases t) simp_all

text \<open>C34: The class is a table of independent settings. After any sequence of setter calls, a getter
  returns what the last accepted value for its own setting makes of it, and calls for other
  settings play no part. For every setting except the ALPN list and the stateless reset token,
  that is the very value that was set last.\<close>

theorem getter_after_setters:
  "read_setting t (fold (\<lambda>(k, v). write_setting k v) ws c) =
     fold (\<lambda>(k, v) old. read_back k v old) (filter (\<lambda>(k, v). k = t) ws) (read_setting t c) \<and>
   (t \<notin> {Alpn, StatelessResetToken} \<longrightarrow>
      type_of_value v = type_of_value (read_setting t c) \<longrightarrow> read_setting t (write_setting t v c) = v)"
proof -
  have "read_back t v (read_setting t c) = v"
    if "t \<notin> {Alpn, StatelessResetToken}" "type_of_value v = type_of_value (read_setting t c)"
    using that only_alpn_is_a_list [of t c] unfolding read_back_def
    by (cases v) (auto split: option.split)
  then show ?thesis
    using cfg.read_after_writes [of t ws c] read_setting_write_same [of t v c] by simp
qed

theorem getter_after_setters_witness:
  "read_setting MaxIdleTimeout (write_setting MaxIdleTimeout (VOptWord (Some 30000)) demo_config) =
     VOptWord (Some 30000) \<and>
   read_setting Grease (fold (\<lambda>(k, v). write_setting k v)
     [(Grease, VBool False), (VerifyPeer, VBool True)] demo_config) = VBool False"
  using getter_after_setters [of MaxIdleTimeout "[]" demo_config "VOptWord (Some 30000)"]
    getter_after_setters [of Grease "[(Grease, VBool False), (VerifyPeer, VBool True)]" demo_config]
  by (simp add: demo_config_def config_construct_def demo_settings_def config_defs read_back_def)

text \<open>C35: A timeout in milliseconds is stored exactly, for all 64-bit values: whole seconds, the rest
  as nanoseconds below one second, and the getter computes the same milliseconds back without
  overflow. No timeout stays no timeout.\<close>

theorem timeouts_are_exact:
  "get_max_idle_timeout (set_max_idle_timeout v c) = v \<and>
   get_handshake_timeout (set_handshake_timeout v c) = v \<and>
   (\<forall>ms. v = Some ms \<longrightarrow>
      (\<exists>d. qs_max_idle_timeout (cfg_inner (set_max_idle_timeout v c)) = Some d \<and>
         qs_handshake_timeout (cfg_inner (set_handshake_timeout v c)) = Some d \<and>
         unat (dur_secs d) = unat ms div 1000 \<and>
         unat (dur_nanos d) = unat ms mod 1000 * 1000000))"
proof (intro conjI allI impI)
  show "get_max_idle_timeout (set_max_idle_timeout v c) = v"
    "get_handshake_timeout (set_handshake_timeout v c) = v"
    by (cases v; simp add: config_defs)+
  fix ms assume "v = Some ms"
  moreover have "unat (dur_secs (duration_from_millis ms)) = unat ms div 1000"
    by (simp add: duration_from_millis_def unat_div)
  ultimately show "\<exists>d. qs_max_idle_timeout (cfg_inner (set_max_idle_timeout v c)) = Some d \<and>
      qs_handshake_timeout (cfg_inner (set_handshake_timeout v c)) = Some d \<and>
      unat (dur_secs d) = unat ms div 1000 \<and> unat (dur_nanos d) = unat ms mod 1000 * 1000000"
    using unat_nanos [of ms] by (simp add: config_defs)
qed

theorem timeouts_are_exact_witness:
  "get_max_idle_timeout (set_max_idle_timeout (Some 1500) demo_config) = Some 1500 \<and>
   (\<exists>d. qs_max_idle_timeout (cfg_inner (set_max_idle_timeout (Some 1500) demo_config)) = Some d \<and>
      unat (dur_secs d) = 1 \<and> unat (dur_nanos d) = 500000000)"
  using timeouts_are_exact [of "Some 1500" demo_config] by auto

text \<open>C33: The stateless reset token is a 128-bit number in hexadecimal. Setting the printed form of
  any token stores that token and the getter prints the same text; setting nothing removes it;
  and a text that is not a 128-bit hexadecimal number is ignored without a trace: the
  configuration, an older token included, is unchanged.\<close>

theorem reset_token_round_trip:
  "get_stateless_reset_token (set_stateless_reset_token (Some (print_hex_u128 t)) c) =
     Some (print_hex_u128 t) \<and>
   qs_stateless_reset_token (cfg_inner (set_stateless_reset_token (Some (print_hex_u128 t)) c)) =
     Some t \<and>
   get_stateless_reset_token (set_stateless_reset_token None c) = None \<and>
   (parse_hex_u128 x = None \<longrightarrow> set_stateless_reset_token (Some x) c = c)"
  by (simp add: config_defs hex_u128.parse_print)

theorem reset_token_round_trip_witness:
  "get_stateless_reset_token (set_stateless_reset_token (Some ''ff'') demo_config) = Some ''ff'' \<and>
   set_stateless_reset_token (Some ''xyz'') demo_config = demo_config"
proof -
  have "print_hex_u128 255 = ''ff''" by code_simp
  moreover have "parse_hex_u128 ''xyz'' = None"
    by (simp add: parse_hex_u128_def from_str_radix_def digit_value_def)
  ultimately show ?thesis
    using reset_token_round_trip [of 255 demo_config "''xyz''"] by simp
qed

text \<open>C36: The ALPN list is stored as the bytes of the given strings, in order. What the getter
  returns is always valid UTF-8, even when the stored protocols are not, and it is the list
  that was set when those strings are valid UTF-8, as the strings that PHP passes are.\<close>

theorem alpn_round_trip:
  "qs_alpn (cfg_inner (set_alpn ps c)) = map bytes_of_string ps \<and>
   length (get_alpn c) = length (qs_alpn (cfg_inner c)) \<and>
   (\<forall>p \<in> set (get_alpn c). utf8_valid (bytes_of_string p)) \<and>
   ((\<forall>p \<in> set ps. utf8_valid (bytes_of_string p)) \<longrightarrow> get_alpn (set_alpn ps c) = ps)"
  by (auto simp: config_defs from_utf8_lossy_valid from_utf8_lossy_valid_id map_idI)

theorem alpn_round_trip_witness:
  "get_alpn (set_alpn [''h3'', ''hq''] demo_config) = [''h3'', ''hq'']"
proof -
  have "\<forall>p \<in> set [''h3'', ''hq'']. utf8_valid (bytes_of_string p)" by code_simp
  then show ?thesis using alpn_round_trip [of "[''h3'', ''hq'']" demo_config] by blast
qed

subsection \<open>Durations are ordered as in the standard library\<close>

text \<open>The derived order of \<open>std::time::Duration\<close>: seconds first, then nanoseconds.\<close>

instantiation duration :: linorder
begin

definition less_eq_duration :: "duration \<Rightarrow> duration \<Rightarrow> bool" where
  "less_eq_duration d e \<longleftrightarrow>
     dur_secs d < dur_secs e \<or> dur_secs d = dur_secs e \<and> dur_nanos d \<le> dur_nanos e"

definition less_duration :: "duration \<Rightarrow> duration \<Rightarrow> bool" where
  "less_duration d e \<longleftrightarrow>
     dur_secs d < dur_secs e \<or> dur_secs d = dur_secs e \<and> dur_nanos d < dur_nanos e"

instance
  by intro_classes (auto simp: less_eq_duration_def less_duration_def duration.expand)

end

lemma div_mod_le_iff:
  fixes x y k :: nat
  shows "x div k < y div k \<or> x div k = y div k \<and> x mod k \<le> y mod k \<longleftrightarrow> x \<le> y"
proof (cases "x div k" "y div k" rule: linorder_cases)
  case less
  then show ?thesis using div_le_mono [of y x k] by linarith
next
  case equal
  then show ?thesis
    using div_mult_mod_eq [of x k] div_mult_mod_eq [of y k]
    by (metis add_le_cancel_left less_irrefl)
next
  case greater
  then show ?thesis using div_le_mono [of x y k] by linarith
qed

text \<open>The order of the timeouts that a script sets is the order of the values that are stored.\<close>

lemma timeouts_keep_order:
  "duration_from_millis a \<le> duration_from_millis b \<longleftrightarrow> a \<le> b"
proof -
  have secs: "unat (dur_secs (duration_from_millis ms)) = unat ms div 1000" for ms
    by (simp add: duration_from_millis_def unat_div)
  have "dur_secs (duration_from_millis a) = dur_secs (duration_from_millis b) \<longleftrightarrow>
      unat a div 1000 = unat b div 1000"
    by (simp add: word_unat_eq_iff secs)
  then show ?thesis
    by (simp add: less_eq_duration_def word_less_nat_alt word_le_nat_alt secs unat_nanos
        div_mod_le_iff)
qed

end
