(* ===== verification/Store.thy ===== *)
theory Store
  imports Prelude
begin

text \<open>
  The data that PHP, the server loop and the drivers share. The structs of
  \<open>src/quiche/conn.rs\<close>, \<open>src/stream.rs\<close> and \<open>src/quiche/driver.rs\<close> hold
  \<open>Arc\<close> pointers; an \<open>Arc\<close> is an address here and the \<open>store\<close> maps addresses to what
  they point to, so that clones of one pointer see each other's writes.

  The mutexes are \<open>parking_lot::Mutex\<close>, which is not reentrant. Everything behind them is
  used by the PHP thread alone, so the locks of that thread are a set, and taking a lock that is
  in the set never returns (\<open>None\<close>).
\<close>

subsection \<open>Values and types of \<open>src/quiche/conn.rs\<close>\<close>

type_synonym addr = nat

text \<open>A PHP value that may be a callable: cloning it shares the same PHP closure.\<close>

datatype zval = Zval nat

type_synonym stream_writer = "u64 \<times> bytes option \<times> bool"

record stream_slots =
  ss_on_data :: addr
  ss_on_close :: addr

type_synonym php_stream_callbacks = "u64 \<rightharpoonup> stream_slots"

datatype driver_event =
    NewBidi u64
  | NewUni u64
  | Data u64 bytes bool

text \<open>A \<open>SocketAddr\<close> is kept as the text it prints.\<close>

record conn_open_handle =
  coh_conn_id :: u64
  coh_peer_addr :: string
  coh_write_tx :: addr
  coh_write_notify :: addr
  coh_callbacks :: addr

record conn_state =
  cs_peer_addr :: string
  cs_callbacks :: addr
  cs_open_handle :: conn_open_handle

subsection \<open>The driver of \<open>src/quiche/driver.rs\<close>\<close>

text \<open>
  The two senders \<open>event_tx\<close> and \<open>conn_close_tx\<close> are clones of the server's; the
  operations of the driver take the channel they lead to as an argument.
\<close>

record driver =
  drv_conn_id :: u64
  drv_stream_event_recv :: addr
  drv_established :: bool
  drv_io_worker_buf :: bytes
  drv_write_notify :: addr
  drv_pending_writes :: "u64 \<rightharpoonup> (bytes \<times> bool) list"
  drv_seen_streams :: "u64 set"

subsection \<open>The PHP objects of \<open>src/stream.rs\<close>\<close>

record incoming_bidi_stream =
  ib_conn_id :: u64
  ib_stream_id :: u64
  ib_peer_addr :: string
  ib_write_tx :: addr
  ib_write_notify :: addr
  ib_on_data :: addr
  ib_on_close :: addr
  ib_conn_handle :: conn_open_handle

record incoming_uni_stream =
  iu_conn_id :: u64
  iu_stream_id :: u64
  iu_peer_addr :: string
  iu_on_data :: addr
  iu_on_close :: addr
  iu_conn_handle :: conn_open_handle

record bidi_stream =
  bi_conn_id :: u64
  bi_stream_id :: u64
  bi_write_tx :: addr
  bi_write_notify :: addr
  bi_on_data :: addr
  bi_on_close :: addr

record uni_stream =
  un_conn_id :: u64
  un_stream_id :: u64
  un_write_tx :: addr
  un_write_notify :: addr
  un_on_close :: addr

datatype php_object =
    IncomingBidi incoming_bidi_stream
  | IncomingUni incoming_uni_stream
  | Bidi bidi_stream
  | Uni uni_stream

subsection \<open>The store\<close>

text \<open>
  \<open>st_trace\<close> records what leaves the Rust code, oldest first: calls of PHP callables (with
  the slot they were taken from), wake-ups of a driver's \<open>Notify\<close>, and drivers handed to
  tokio-quiche.
\<close>

datatype effect =
    CalledStream zval php_object
  | CalledData addr zval bytes bool
  | CalledClose addr zval bool
  | Notified addr
  | Started driver

record 'wc store =
  st_slots :: "addr \<Rightarrow> zval option"
  st_maps :: "addr \<Rightarrow> php_stream_callbacks"
  st_chans :: "addr \<Rightarrow> 'wc"
  st_next :: addr
  st_trace :: "effect list"

definition emit :: "effect \<Rightarrow> 'wc store \<Rightarrow> 'wc store" where
  "emit e s = s\<lparr>st_trace := st_trace s @ [e]\<rparr>"

lemma emit_simps [simp]:
  "st_slots (emit e s) = st_slots s"
  "st_maps (emit e s) = st_maps s"
  "st_chans (emit e s) = st_chans s"
  "st_next (emit e s) = st_next s"
  "st_trace (emit e s) = st_trace s @ [e]"
  by (simp_all add: emit_def)

subsection \<open>Mutexes of the PHP thread\<close>

datatype mutex = SlotMutex addr | MapMutex addr | StreamCallbackMutex

definition with_lock :: "mutex \<Rightarrow> mutex set \<Rightarrow> (mutex set \<Rightarrow> 'a option) \<Rightarrow> 'a option" where
  "with_lock m held body = (if m \<in> held then None else body (insert m held))"

lemma with_lock_Some:
  "with_lock m held body = Some r \<longleftrightarrow> m \<notin> held \<and> body (insert m held) = Some r"
  by (simp add: with_lock_def)

lemma with_lock_free [simp]: "m \<notin> held \<Longrightarrow> with_lock m held body = body (insert m held)"
  by (simp add: with_lock_def)

lemma with_lock_held [simp]: "m \<in> held \<Longrightarrow> with_lock m held body = None"
  by (simp add: with_lock_def)

end
