(* ===== verification/Channel.thy ===== *)
theory Channel
  imports Prelude
begin

text \<open>
  The bounded channels of \<open>tokio::sync::mpsc\<close> that connect PHP, the connection drivers and
  the server loop. The channel implementation is a parameter of the model: a record of the
  operations the sources call, on an unknown state \<open>'c\<close>. Every operation that uses a channel
  takes this record as an argument.

  The locale \<open>mpsc_fifo\<close> states what tokio documents, over three views of a channel: the
  queued messages (oldest first), the free capacity, and whether the receiver exists.
\<close>

datatype send_error = Full | Closed

datatype recv_error = RecvEmpty | RecvDisconnected

record ('c, 'm) mpsc =
  mpsc_channel :: "nat \<Rightarrow> 'c"
  try_send :: "'m \<Rightarrow> 'c \<Rightarrow> send_error + 'c"
  try_reserve :: "'c \<Rightarrow> send_error + 'c"
  permit_send :: "'m \<Rightarrow> 'c \<Rightarrow> 'c"
  permit_drop :: "'c \<Rightarrow> 'c"
  try_recv :: "'c \<Rightarrow> recv_error + 'm \<times> 'c"
  rx_drop :: "'c \<Rightarrow> 'c"
  display_send_error :: "send_error \<Rightarrow> string"

locale mpsc_fifo =
  fixes ch :: "('c, 'm) mpsc"
    and items :: "'c \<Rightarrow> 'm list"
    and room :: "'c \<Rightarrow> nat"
    and live :: "'c \<Rightarrow> bool"
  assumes channel:
      "0 < n \<Longrightarrow> items (mpsc_channel ch n) = []"
      "0 < n \<Longrightarrow> room (mpsc_channel ch n) = n"
      "0 < n \<Longrightarrow> live (mpsc_channel ch n)"
    and try_send_ok:
      "live c \<Longrightarrow> 0 < room c \<Longrightarrow>
         \<exists>c'. try_send ch m c = Inr c' \<and> items c' = items c @ [m] \<and> room c' = room c - 1 \<and> live c'"
    and try_send_full: "live c \<Longrightarrow> room c = 0 \<Longrightarrow> try_send ch m c = Inl Full"
    and try_send_closed: "\<not> live c \<Longrightarrow> try_send ch m c = Inl Closed"
    and try_reserve_ok:
      "live c \<Longrightarrow> 0 < room c \<Longrightarrow>
         \<exists>c'. try_reserve ch c = Inr c' \<and> items c' = items c \<and> room c' = room c - 1 \<and> live c'"
    and try_reserve_full: "live c \<Longrightarrow> room c = 0 \<Longrightarrow> try_reserve ch c = Inl Full"
    and try_reserve_closed: "\<not> live c \<Longrightarrow> try_reserve ch c = Inl Closed"
    and permit_send:
      "live c \<Longrightarrow> items (permit_send ch m c) = items c @ [m]"
      "live c \<Longrightarrow> room (permit_send ch m c) = room c"
      "live c \<Longrightarrow> live (permit_send ch m c)"
    and permit_drop:
      "live c \<Longrightarrow> items (permit_drop ch c) = items c"
      "live c \<Longrightarrow> room (permit_drop ch c) = Suc (room c)"
      "live c \<Longrightarrow> live (permit_drop ch c)"
    and try_recv_ok:
      "live c \<Longrightarrow> items c = m # ms \<Longrightarrow>
         \<exists>c'. try_recv ch c = Inr (m, c') \<and> items c' = ms \<and> room c' = Suc (room c) \<and> live c'"
    and try_recv_empty: "live c \<Longrightarrow> items c = [] \<Longrightarrow> \<exists>e. try_recv ch c = Inl e"
    and try_recv_closed: "\<not> live c \<Longrightarrow> \<exists>e. try_recv ch c = Inl e"
    and rx_drop: "\<not> live (rx_drop ch c)"
begin

lemma try_send_cases:
  obtains (ok) c' where "live c" "0 < room c" "try_send ch m c = Inr c'"
      "items c' = items c @ [m]" "room c' = room c - 1" "live c'"
  | (full) "live c" "room c = 0" "try_send ch m c = Inl Full"
  | (closed) "\<not> live c" "try_send ch m c = Inl Closed"
  using try_send_ok [of c m] try_send_full [of c m] try_send_closed [of c m] by blast

lemma try_reserve_cases:
  obtains (ok) c' where "live c" "0 < room c" "try_reserve ch c = Inr c'"
      "items c' = items c" "room c' = room c - 1" "live c'"
  | (full) "live c" "room c = 0" "try_reserve ch c = Inl Full"
  | (closed) "\<not> live c" "try_reserve ch c = Inl Closed"
  using try_reserve_ok [of c] try_reserve_full [of c] try_reserve_closed [of c] by blast

lemma try_recv_cases:
  assumes "live c"
  obtains (msg) m c' where "try_recv ch c = Inr (m, c')" "items c = m # items c'"
      "room c' = Suc (room c)" "live c'"
  | (empty) e where "items c = []" "try_recv ch c = Inl e"
  using try_recv_ok [OF assms] try_recv_empty [OF assms] by (cases "items c") blast+

lemma try_reserve_Inr:
  assumes "try_reserve ch c = Inr c'"
  shows "live c \<and> live c' \<and> items c' = items c \<and> room c = Suc (room c')"
  using assms by (cases c rule: try_reserve_cases) auto

text \<open>Sending with a permit is sending.\<close>

lemma reserve_then_send:
  assumes "try_reserve ch c = Inr c'"
  shows "items (permit_send ch m c') = items c @ [m]"
    "Suc (room (permit_send ch m c')) = room c" "live (permit_send ch m c')"
  using try_reserve_Inr [OF assms] by (simp_all add: permit_send)

lemma reserve_then_drop:
  assumes "try_reserve ch c = Inr c'"
  shows "items (permit_drop ch c') = items c" "room (permit_drop ch c') = room c"
    "live (permit_drop ch c')"
  using try_reserve_Inr [OF assms] by (simp_all add: permit_drop)

end

subsection \<open>A bounded queue that behaves as documented\<close>

text \<open>
  The executable reference channel. It shows that the laws can hold together, and it is the
  channel on which the theorems are evaluated at concrete inputs.
\<close>

record 'm fifo =
  fifo_items :: "'m list"
  fifo_room :: nat
  fifo_live :: bool

definition fifo_try_send :: "'m \<Rightarrow> 'm fifo \<Rightarrow> send_error + 'm fifo" where
  "fifo_try_send m c =
     (if \<not> fifo_live c then Inl Closed
      else if fifo_room c = 0 then Inl Full
      else Inr (c\<lparr>fifo_items := fifo_items c @ [m], fifo_room := fifo_room c - 1\<rparr>))"

definition fifo_try_reserve :: "'m fifo \<Rightarrow> send_error + 'm fifo" where
  "fifo_try_reserve c =
     (if \<not> fifo_live c then Inl Closed
      else if fifo_room c = 0 then Inl Full
      else Inr (c\<lparr>fifo_room := fifo_room c - 1\<rparr>))"

definition fifo_try_recv :: "'m fifo \<Rightarrow> recv_error + 'm \<times> 'm fifo" where
  "fifo_try_recv c =
     (if \<not> fifo_live c then Inl RecvDisconnected
      else case fifo_items c of
        [] \<Rightarrow> Inl RecvEmpty
      | m # ms \<Rightarrow> Inr (m, c\<lparr>fifo_items := ms, fifo_room := Suc (fifo_room c)\<rparr>))"

definition fifo_mpsc :: "('m fifo, 'm) mpsc" where
  "fifo_mpsc =
     \<lparr>mpsc_channel = (\<lambda>n. \<lparr>fifo_items = [], fifo_room = n, fifo_live = True\<rparr>),
      try_send = fifo_try_send,
      try_reserve = fifo_try_reserve,
      permit_send = (\<lambda>m c. c\<lparr>fifo_items := fifo_items c @ [m]\<rparr>),
      permit_drop = (\<lambda>c. c\<lparr>fifo_room := Suc (fifo_room c)\<rparr>),
      try_recv = fifo_try_recv,
      rx_drop = (\<lambda>c. c\<lparr>fifo_items := [], fifo_live := False\<rparr>),
      display_send_error =
        (\<lambda>e. case e of Full \<Rightarrow> ''no available capacity'' | Closed \<Rightarrow> ''channel closed'')\<rparr>"

lemmas fifo_simps = fifo_mpsc_def fifo_try_send_def fifo_try_reserve_def fifo_try_recv_def

interpretation fifo: mpsc_fifo fifo_mpsc fifo_items fifo_room fifo_live
  by unfold_locales (auto simp: fifo_simps)

end
