(* ===== verification/Conn.thy ===== *)
theory Conn
  imports Store Channel
begin

text \<open>
  \<open>src/quiche/conn.rs\<close>: callback slots, the handle that PHP stream objects keep to open
  further streams, and the construction of a connection's server-side record together with its
  driver.
\<close>

definition STREAM_BUFFER_SIZE :: nat where
  "STREAM_BUFFER_SIZE = 65536"

definition make_slot_pair :: "'wc store \<Rightarrow> (addr \<times> addr) \<times> 'wc store" where
  "make_slot_pair s =
     (let a = st_next s in
      ((a, Suc a),
       s\<lparr>st_slots := (st_slots s)(a := None, Suc a := None), st_next := Suc (Suc a)\<rparr>))"

text \<open>The insertion into the shared callback map, \<open>php_stream_callbacks.lock().insert(..)\<close>.\<close>

definition insert_slots :: "addr \<Rightarrow> u64 \<Rightarrow> stream_slots \<Rightarrow> 'wc store \<Rightarrow> 'wc store" where
  "insert_slots m stream_id sl s =
     s\<lparr>st_maps := (st_maps s)(m := (st_maps s m)(stream_id \<mapsto> sl))\<rparr>"

definition prepare_bidi_stream ::
  "conn_open_handle \<Rightarrow> u64 \<Rightarrow> mutex set \<Rightarrow> 'wc store \<Rightarrow>
   ((addr \<times> addr \<times> addr \<times> addr) \<times> 'wc store) option" where
  "prepare_bidi_stream h stream_id held s =
     (case make_slot_pair s of
        ((on_data, on_close), s1) \<Rightarrow>
          with_lock (MapMutex (coh_callbacks h)) held (\<lambda>_.
            Some ((coh_write_tx h, coh_write_notify h, on_data, on_close),
                  insert_slots (coh_callbacks h) stream_id
                    \<lparr>ss_on_data = on_data, ss_on_close = on_close\<rparr> s1)))"

definition prepare_uni_stream ::
  "conn_open_handle \<Rightarrow> u64 \<Rightarrow> mutex set \<Rightarrow> 'wc store \<Rightarrow>
   ((addr \<times> addr \<times> addr) \<times> 'wc store) option" where
  "prepare_uni_stream h stream_id held s =
     (case make_slot_pair s of
        ((on_data, on_close), s1) \<Rightarrow>
          with_lock (MapMutex (coh_callbacks h)) held (\<lambda>_.
            Some ((coh_write_tx h, coh_write_notify h, on_close),
                  insert_slots (coh_callbacks h) stream_id
                    \<lparr>ss_on_data = on_data, ss_on_close = on_close\<rparr> s1)))"

text \<open>
  \<open>ConnState::build\<close>: a write channel of capacity 256, a \<open>Notify\<close> and an empty callback
  map are allocated and shared between the record and the driver.
\<close>

definition WRITE_CHANNEL_CAPACITY :: nat where
  "WRITE_CHANNEL_CAPACITY = 256"

definition build ::
  "('wc, stream_writer) mpsc \<Rightarrow> u64 \<Rightarrow> string \<Rightarrow> 'wc store \<Rightarrow>
   (conn_state \<times> driver) \<times> 'wc store" where
  "build wch conn_id peer_addr s =
     (let write_tx = st_next s;
          write_notify = Suc write_tx;
          callbacks = Suc write_notify;
          open_handle =
            \<lparr>coh_conn_id = conn_id, coh_peer_addr = peer_addr, coh_write_tx = write_tx,
             coh_write_notify = write_notify, coh_callbacks = callbacks\<rparr>;
          drv =
            \<lparr>drv_conn_id = conn_id, drv_stream_event_recv = write_tx, drv_established = False,
             drv_io_worker_buf = replicate STREAM_BUFFER_SIZE 0,
             drv_write_notify = write_notify, drv_pending_writes = Map.empty,
             drv_seen_streams = {}\<rparr>;
          state =
            \<lparr>cs_peer_addr = peer_addr, cs_callbacks = callbacks, cs_open_handle = open_handle\<rparr>
      in ((state, drv),
          s\<lparr>st_chans := (st_chans s)(write_tx := mpsc_channel wch WRITE_CHANNEL_CAPACITY),
            st_maps := (st_maps s)(callbacks := Map.empty),
            st_next := Suc callbacks\<rparr>))"

subsection \<open>Registering a stream\<close>

text \<open>
  Every way to register a stream, from PHP or from the server loop, has the same effect on the
  store: two fresh, empty slots, entered under the stream's id.
\<close>

definition register_stream :: "addr \<Rightarrow> u64 \<Rightarrow> 'wc store \<Rightarrow> 'wc store" where
  "register_stream m stream_id s =
     insert_slots m stream_id \<lparr>ss_on_data = st_next s, ss_on_close = Suc (st_next s)\<rparr>
       (snd (make_slot_pair s))"

lemma register_stream_simps [simp]:
  "st_slots (register_stream m i s) = (st_slots s)(st_next s := None, Suc (st_next s) := None)"
  "st_maps (register_stream m i s) =
     (st_maps s)(m := (st_maps s m)
       (i \<mapsto> \<lparr>ss_on_data = st_next s, ss_on_close = Suc (st_next s)\<rparr>))"
  "st_chans (register_stream m i s) = st_chans s"
  "st_next (register_stream m i s) = Suc (Suc (st_next s))"
  "st_trace (register_stream m i s) = st_trace s"
  by (simp_all add: register_stream_def insert_slots_def make_slot_pair_def Let_def)

lemma prepare_bidi_stream_eq:
  "prepare_bidi_stream h i held s =
     (if MapMutex (coh_callbacks h) \<in> held then None
      else Some ((coh_write_tx h, coh_write_notify h, st_next s, Suc (st_next s)),
                 register_stream (coh_callbacks h) i s))"
  by (simp add: prepare_bidi_stream_def register_stream_def make_slot_pair_def Let_def
      with_lock_def)

lemma prepare_uni_stream_eq:
  "prepare_uni_stream h i held s =
     (if MapMutex (coh_callbacks h) \<in> held then None
      else Some ((coh_write_tx h, coh_write_notify h, Suc (st_next s)),
                 register_stream (coh_callbacks h) i s))"
  by (simp add: prepare_uni_stream_def register_stream_def make_slot_pair_def Let_def
      with_lock_def)

lemma build_simps:
  assumes "build wch cid peer s = ((state, drv), s')"
  shows "cs_peer_addr state = peer" "cs_callbacks state = st_next s + 2"
    "cs_open_handle state =
       \<lparr>coh_conn_id = cid, coh_peer_addr = peer, coh_write_tx = st_next s,
        coh_write_notify = st_next s + 1, coh_callbacks = st_next s + 2\<rparr>"
    "drv_conn_id drv = cid" "drv_stream_event_recv drv = st_next s"
    "drv_write_notify drv = st_next s + 1" "\<not> drv_established drv"
    "drv_pending_writes drv = Map.empty" "drv_seen_streams drv = {}"
    "length (drv_io_worker_buf drv) = STREAM_BUFFER_SIZE"
    "st_slots s' = st_slots s" "st_maps s' = (st_maps s)(st_next s + 2 := Map.empty)"
    "st_chans s' = (st_chans s)(st_next s := mpsc_channel wch WRITE_CHANNEL_CAPACITY)"
    "st_next s' = st_next s + 3" "st_trace s' = st_trace s"
  using assms by (auto simp: build_def Let_def)

end
