(* ===== verification/Streams.thy ===== *)
theory Streams
  imports Conn Errors
begin

text \<open>
  \<open>src/stream.rs\<close>: the methods of the four PHP stream classes. A method takes the object, the
  locks that the PHP thread holds when it is called (a PHP callback runs under the lock of its
  slot) and the store. \<open>callable\<close> is PHP's \<open>is_callable\<close>; \<open>wch\<close> is the implementation of
  the per-connection write channel.
\<close>

subsection \<open>Helpers\<close>

definition install_slot ::
  "(zval \<Rightarrow> bool) \<Rightarrow> addr \<Rightarrow> zval \<Rightarrow> string \<Rightarrow> mutex set \<Rightarrow> 'wc store \<Rightarrow>
   ((php_exception + unit) \<times> 'wc store) option" where
  "install_slot callable slot callback name held s =
     (if \<not> callable callback
      then Some (Inl (php_default (name @ '' expects a callable'')), s)
      else with_lock (SlotMutex slot) held (\<lambda>_.
             Some (Inr (), s\<lparr>st_slots := (st_slots s)(slot := Some callback)\<rparr>)))"

text \<open>
  \<open>write\<close> and \<open>close\<close> share their body: \<open>try_send\<close> on the write channel, then
  \<open>notify_one\<close>. On an error nothing is queued and the driver is not woken.
\<close>

definition send_chunk ::
  "('wc, stream_writer) mpsc \<Rightarrow> addr \<Rightarrow> addr \<Rightarrow> stream_writer \<Rightarrow> string \<Rightarrow> 'wc store \<Rightarrow>
   (php_exception + unit) \<times> 'wc store" where
  "send_chunk wch tx notify chunk label s =
     (case try_send wch chunk (st_chans s tx) of
        Inl e \<Rightarrow> (Inl (php_default (label @ '' failed: '' @ display_send_error wch e)), s)
      | Inr c \<Rightarrow> (Inr (), emit (Notified notify) (s\<lparr>st_chans := (st_chans s)(tx := c)\<rparr>)))"

subsection \<open>\<open>IncomingBidiStream\<close>\<close>

definition incoming_bidi_set_on_data ::
  "(zval \<Rightarrow> bool) \<Rightarrow> incoming_bidi_stream \<Rightarrow> zval \<Rightarrow> mutex set \<Rightarrow> 'wc store \<Rightarrow>
   ((php_exception + unit) \<times> 'wc store) option" where
  "incoming_bidi_set_on_data callable obj callback held s =
     install_slot callable (ib_on_data obj) callback ''setOnData'' held s"

definition incoming_bidi_set_on_close ::
  "(zval \<Rightarrow> bool) \<Rightarrow> incoming_bidi_stream \<Rightarrow> zval \<Rightarrow> mutex set \<Rightarrow> 'wc store \<Rightarrow>
   ((php_exception + unit) \<times> 'wc store) option" where
  "incoming_bidi_set_on_close callable obj callback held s =
     install_slot callable (ib_on_close obj) callback ''setOnClose'' held s"

definition incoming_bidi_write ::
  "('wc, stream_writer) mpsc \<Rightarrow> incoming_bidi_stream \<Rightarrow> bytes \<Rightarrow> bool \<Rightarrow> 'wc store \<Rightarrow>
   (php_exception + unit) \<times> 'wc store" where
  "incoming_bidi_write wch obj data fin s =
     send_chunk wch (ib_write_tx obj) (ib_write_notify obj)
       (ib_stream_id obj, Some data, fin) ''write'' s"

definition incoming_bidi_close ::
  "('wc, stream_writer) mpsc \<Rightarrow> incoming_bidi_stream \<Rightarrow> 'wc store \<Rightarrow> (php_exception + unit) \<times> 'wc store" where
  "incoming_bidi_close wch obj s =
     send_chunk wch (ib_write_tx obj) (ib_write_notify obj)
       (ib_stream_id obj, Some [], True) ''close'' s"

definition incoming_bidi_open_bidi_stream ::
  "incoming_bidi_stream \<Rightarrow> u64 \<Rightarrow> mutex set \<Rightarrow> 'wc store \<Rightarrow>
   ((php_exception + bidi_stream) \<times> 'wc store) option" where
  "incoming_bidi_open_bidi_stream obj stream_id held s =
     do {
       ((write_tx, write_notify, on_data, on_close), s') \<leftarrow>
         prepare_bidi_stream (ib_conn_handle obj) stream_id held s;
       Some (Inr \<lparr>bi_conn_id = coh_conn_id (ib_conn_handle obj), bi_stream_id = stream_id,
               bi_write_tx = write_tx, bi_write_notify = write_notify,
               bi_on_data = on_data, bi_on_close = on_close\<rparr>, s')
     }"

definition incoming_bidi_open_uni_stream ::
  "incoming_bidi_stream \<Rightarrow> u64 \<Rightarrow> mutex set \<Rightarrow> 'wc store \<Rightarrow>
   ((php_exception + uni_stream) \<times> 'wc store) option" where
  "incoming_bidi_open_uni_stream obj stream_id held s =
     do {
       ((write_tx, write_notify, on_close), s') \<leftarrow>
         prepare_uni_stream (ib_conn_handle obj) stream_id held s;
       Some (Inr \<lparr>un_conn_id = coh_conn_id (ib_conn_handle obj), un_stream_id = stream_id,
               un_write_tx = write_tx, un_write_notify = write_notify,
               un_on_close = on_close\<rparr>, s')
     }"

definition incoming_bidi_get_conn_id :: "incoming_bidi_stream \<Rightarrow> u64" where
  "incoming_bidi_get_conn_id obj = ib_conn_id obj"

definition incoming_bidi_get_stream_id :: "incoming_bidi_stream \<Rightarrow> u64" where
  "incoming_bidi_get_stream_id obj = ib_stream_id obj"

definition incoming_bidi_get_peer_addr :: "incoming_bidi_stream \<Rightarrow> string" where
  "incoming_bidi_get_peer_addr obj = ib_peer_addr obj"

subsection \<open>\<open>IncomingUniStream\<close>\<close>

definition incoming_uni_set_on_data ::
  "(zval \<Rightarrow> bool) \<Rightarrow> incoming_uni_stream \<Rightarrow> zval \<Rightarrow> mutex set \<Rightarrow> 'wc store \<Rightarrow>
   ((php_exception + unit) \<times> 'wc store) option" where
  "incoming_uni_set_on_data callable obj callback held s =
     install_slot callable (iu_on_data obj) callback ''setOnData'' held s"

definition incoming_uni_set_on_close ::
  "(zval \<Rightarrow> bool) \<Rightarrow> incoming_uni_stream \<Rightarrow> zval \<Rightarrow> mutex set \<Rightarrow> 'wc store \<Rightarrow>
   ((php_exception + unit) \<times> 'wc store) option" where
  "incoming_uni_set_on_close callable obj callback held s =
     install_slot callable (iu_on_close obj) callback ''setOnClose'' held s"

definition incoming_uni_open_bidi_stream ::
  "incoming_uni_stream \<Rightarrow> u64 \<Rightarrow> mutex set \<Rightarrow> 'wc store \<Rightarrow>
   ((php_exception + bidi_stream) \<times> 'wc store) option" where
  "incoming_uni_open_bidi_stream obj stream_id held s =
     do {
       ((write_tx, write_notify, on_data, on_close), s') \<leftarrow>
         prepare_bidi_stream (iu_conn_handle obj) stream_id held s;
       Some (Inr \<lparr>bi_conn_id = coh_conn_id (iu_conn_handle obj), bi_stream_id = stream_id,
               bi_write_tx = write_tx, bi_write_notify = write_notify,
               bi_on_data = on_data, bi_on_close = on_close\<rparr>, s')
     }"

definition incoming_uni_open_uni_stream ::
  "incoming_uni_stream \<Rightarrow> u64 \<Rightarrow> mutex set \<Rightarrow> 'wc store \<Rightarrow>
   ((php_exception + uni_stream) \<times> 'wc store) option" where
  "incoming_uni_open_uni_stream obj stream_id held s =
     do {
       ((write_tx, write_notify, on_close), s') \<leftarrow>
         prepare_uni_stream (iu_conn_handle obj) stream_id held s;
       Some (Inr \<lparr>un_conn_id = coh_conn_id (iu_conn_handle obj), un_stream_id = stream_id,
               un_write_tx = write_tx, un_write_notify = write_notify,
               un_on_close = on_close\<rparr>, s')
     }"

definition incoming_uni_get_conn_id :: "incoming_uni_stream \<Rightarrow> u64" where
  "incoming_uni_get_conn_id obj = iu_conn_id obj"

definition incoming_uni_get_stream_id :: "incoming_uni_stream \<Rightarrow> u64" where
  "incoming_uni_get_stream_id obj = iu_stream_id obj"

definition incoming_uni_get_peer_addr :: "incoming_uni_stream \<Rightarrow> string" where
  "incoming_uni_get_peer_addr obj = iu_peer_addr obj"

subsection \<open>\<open>BidiStream\<close>\<close>

definition bidi_set_on_data ::
  "(zval \<Rightarrow> bool) \<Rightarrow> bidi_stream \<Rightarrow> zval \<Rightarrow> mutex set \<Rightarrow> 'wc store \<Rightarrow>
   ((php_exception + unit) \<times> 'wc store) option" where
  "bidi_set_on_data callable obj callback held s =
     install_slot callable (bi_on_data obj) callback ''setOnData'' held s"

definition bidi_set_on_close ::
  "(zval \<Rightarrow> bool) \<Rightarrow> bidi_stream \<Rightarrow> zval \<Rightarrow> mutex set \<Rightarrow> 'wc store \<Rightarrow>
   ((php_exception + unit) \<times> 'wc store) option" where
  "bidi_set_on_close callable obj callback held s =
     install_slot callable (bi_on_close obj) callback ''setOnClose'' held s"

definition bidi_write ::
  "('wc, stream_writer) mpsc \<Rightarrow> bidi_stream \<Rightarrow> bytes \<Rightarrow> bool \<Rightarrow> 'wc store \<Rightarrow>
   (php_exception + unit) \<times> 'wc store" where
  "bidi_write wch obj data fin s =
     send_chunk wch (bi_write_tx obj) (bi_write_notify obj)
       (bi_stream_id obj, Some data, fin) ''write'' s"

definition bidi_close ::
  "('wc, stream_writer) mpsc \<Rightarrow> bidi_stream \<Rightarrow> 'wc store \<Rightarrow> (php_exception + unit) \<times> 'wc store" where
  "bidi_close wch obj s =
     send_chunk wch (bi_write_tx obj) (bi_write_notify obj)
       (bi_stream_id obj, Some [], True) ''close'' s"

definition bidi_get_conn_id :: "bidi_stream \<Rightarrow> u64" where
  "bidi_get_conn_id obj = bi_conn_id obj"

definition bidi_get_stream_id :: "bidi_stream \<Rightarrow> u64" where
  "bidi_get_stream_id obj = bi_stream_id obj"

subsection \<open>\<open>UniStream\<close>\<close>

definition uni_set_on_close ::
  "(zval \<Rightarrow> bool) \<Rightarrow> uni_stream \<Rightarrow> zval \<Rightarrow> mutex set \<Rightarrow> 'wc store \<Rightarrow>
   ((php_exception + unit) \<times> 'wc store) option" where
  "uni_set_on_close callable obj callback held s =
     install_slot callable (un_on_close obj) callback ''setOnClose'' held s"

definition uni_write ::
  "('wc, stream_writer) mpsc \<Rightarrow> uni_stream \<Rightarrow> bytes \<Rightarrow> bool \<Rightarrow> 'wc store \<Rightarrow>
   (php_exception + unit) \<times> 'wc store" where
  "uni_write wch obj data fin s =
     send_chunk wch (un_write_tx obj) (un_write_notify obj)
       (un_stream_id obj, Some data, fin) ''write'' s"

definition uni_close ::
  "('wc, stream_writer) mpsc \<Rightarrow> uni_stream \<Rightarrow> 'wc store \<Rightarrow> (php_exception + unit) \<times> 'wc store" where
  "uni_close wch obj s =
     send_chunk wch (un_write_tx obj) (un_write_notify obj)
       (un_stream_id obj, Some [], True) ''close'' s"

definition uni_get_conn_id :: "uni_stream \<Rightarrow> u64" where
  "uni_get_conn_id obj = un_conn_id obj"

definition uni_get_stream_id :: "uni_stream \<Rightarrow> u64" where
  "uni_get_stream_id obj = un_stream_id obj"

named_theorems stream_defs "the definitions of the methods of the stream classes"

lemmas [stream_defs] =
  incoming_bidi_set_on_data_def incoming_bidi_set_on_close_def incoming_bidi_write_def
  incoming_bidi_close_def incoming_bidi_open_bidi_stream_def incoming_bidi_open_uni_stream_def
  incoming_uni_set_on_data_def incoming_uni_set_on_close_def incoming_uni_open_bidi_stream_def
  incoming_uni_open_uni_stream_def bidi_set_on_data_def bidi_set_on_close_def bidi_write_def
  bidi_close_def uni_set_on_close_def uni_write_def uni_close_def

subsection \<open>What the methods do to the store\<close>

lemma install_slot_Some:
  "install_slot callable slot cb name held s = Some (r, s') \<longleftrightarrow>
     (if callable cb
      then SlotMutex slot \<notin> held \<and> r = Inr () \<and>
           s' = s\<lparr>st_slots := (st_slots s)(slot := Some cb)\<rparr>
      else r = Inl (php_default (name @ '' expects a callable'')) \<and> s' = s)"
  by (auto simp: install_slot_def with_lock_Some)

lemma send_chunk_cases:
  obtains (sent) c where "try_send wch chunk (st_chans s tx) = Inr c"
      "send_chunk wch tx n chunk label s =
         (Inr (), emit (Notified n) (s\<lparr>st_chans := (st_chans s)(tx := c)\<rparr>))"
  | (failed) e where "try_send wch chunk (st_chans s tx) = Inl e"
      "send_chunk wch tx n chunk label s =
         (Inl (php_default (label @ '' failed: '' @ display_send_error wch e)), s)"
  by (cases "try_send wch chunk (st_chans s tx)") (auto simp: send_chunk_def)

end
