(* ===== verification/Php.thy ===== *)
theory Php
  imports Streams
begin

text \<open>
  PHP as the environment of the extension. User code is not part of the repository: the
  engine is a parameter that says which values are callable and what a closure does when it
  is called. What a closure does is a program over the methods of the stream classes
  (\<open>php_prog\<close>): at each point it calls a method and goes on with the result, or it ends. A
  program may depend on the whole store, hence on everything that happened before.

  The drivers run on other threads meanwhile. What they share with the methods of a stream are the
  write channels, so a program also says what happens to these between two of its calls: a driver
  takes a chunk, or a driver ends and its receiver is dropped. Every interleaving of a callback
  with the drivers is a program.

  A program ends after finitely many calls, and it does not call back into
  \<open>QuicheServerSocket\<close> while a callback runs: \<open>tick\<close> and \<open>close\<close> hold the socket
  exclusively.
\<close>

datatype php_op =
    SetOnData php_object zval
  | SetOnClose php_object zval
  | Write php_object bytes bool
  | CloseStream php_object
  | OpenBidiStream php_object u64
  | OpenUniStream php_object u64

datatype php_result =
    PhpUnit
  | PhpObject php_object
  | PhpThrown php_exception
  | PhpUndefinedMethod

datatype php_value = PhpObj php_object | PhpStr bytes | PhpBool bool

datatype driver_op = TakesChunk addr | DropsReceiver addr

datatype php_prog = Done | Call php_op "php_result \<Rightarrow> php_prog" | Meanwhile driver_op php_prog

record 'wc php_engine =
  pe_callable :: "zval \<Rightarrow> bool"
  pe_script :: "'wc store \<Rightarrow> zval \<Rightarrow> php_value list \<Rightarrow> php_prog"

subsection \<open>Calling a method\<close>

fun unit_result :: "php_exception + unit \<Rightarrow> php_result" where
  "unit_result (Inl e) = PhpThrown e"
| "unit_result (Inr u) = PhpUnit"

fun bidi_result :: "php_exception + bidi_stream \<Rightarrow> php_result" where
  "bidi_result (Inl e) = PhpThrown e"
| "bidi_result (Inr b) = PhpObject (Bidi b)"

fun uni_result :: "php_exception + uni_stream \<Rightarrow> php_result" where
  "uni_result (Inl e) = PhpThrown e"
| "uni_result (Inr u) = PhpObject (Uni u)"

definition undefined_method :: "'wc store \<Rightarrow> (php_result \<times> 'wc store) option" where
  "undefined_method s = Some (PhpUndefinedMethod, s)"

fun php_call ::
  "('wc, stream_writer) mpsc \<Rightarrow> 'wc php_engine \<Rightarrow> php_op \<Rightarrow> mutex set \<Rightarrow> 'wc store \<Rightarrow>
   (php_result \<times> 'wc store) option" where
  "php_call wch pe (SetOnData obj cb) held s =
     (case obj of
        IncomingBidi x \<Rightarrow>
          map_option (apfst unit_result) (incoming_bidi_set_on_data (pe_callable pe) x cb held s)
      | IncomingUni x \<Rightarrow>
          map_option (apfst unit_result) (incoming_uni_set_on_data (pe_callable pe) x cb held s)
      | Bidi x \<Rightarrow> map_option (apfst unit_result) (bidi_set_on_data (pe_callable pe) x cb held s)
      | Uni x \<Rightarrow> undefined_method s)"
| "php_call wch pe (SetOnClose obj cb) held s =
     (case obj of
        IncomingBidi x \<Rightarrow>
          map_option (apfst unit_result) (incoming_bidi_set_on_close (pe_callable pe) x cb held s)
      | IncomingUni x \<Rightarrow>
          map_option (apfst unit_result) (incoming_uni_set_on_close (pe_callable pe) x cb held s)
      | Bidi x \<Rightarrow> map_option (apfst unit_result) (bidi_set_on_close (pe_callable pe) x cb held s)
      | Uni x \<Rightarrow> map_option (apfst unit_result) (uni_set_on_close (pe_callable pe) x cb held s))"
| "php_call wch pe (Write obj data fin) held s =
     (case obj of
        IncomingBidi x \<Rightarrow> Some (apfst unit_result (incoming_bidi_write wch x data fin s))
      | IncomingUni x \<Rightarrow> undefined_method s
      | Bidi x \<Rightarrow> Some (apfst unit_result (bidi_write wch x data fin s))
      | Uni x \<Rightarrow> Some (apfst unit_result (uni_write wch x data fin s)))"
| "php_call wch pe (CloseStream obj) held s =
     (case obj of
        IncomingBidi x \<Rightarrow> Some (apfst unit_result (incoming_bidi_close wch x s))
      | IncomingUni x \<Rightarrow> undefined_method s
      | Bidi x \<Rightarrow> Some (apfst unit_result (bidi_close wch x s))
      | Uni x \<Rightarrow> Some (apfst unit_result (uni_close wch x s)))"
| "php_call wch pe (OpenBidiStream obj i) held s =
     (case obj of
        IncomingBidi x \<Rightarrow>
          map_option (apfst bidi_result) (incoming_bidi_open_bidi_stream x i held s)
      | IncomingUni x \<Rightarrow>
          map_option (apfst bidi_result) (incoming_uni_open_bidi_stream x i held s)
      | Bidi x \<Rightarrow> undefined_method s
      | Uni x \<Rightarrow> undefined_method s)"
| "php_call wch pe (OpenUniStream obj i) held s =
     (case obj of
        IncomingBidi x \<Rightarrow>
          map_option (apfst uni_result) (incoming_bidi_open_uni_stream x i held s)
      | IncomingUni x \<Rightarrow>
          map_option (apfst uni_result) (incoming_uni_open_uni_stream x i held s)
      | Bidi x \<Rightarrow> undefined_method s
      | Uni x \<Rightarrow> undefined_method s)"

fun driver_does ::
  "('wc, stream_writer) mpsc \<Rightarrow> driver_op \<Rightarrow> 'wc store \<Rightarrow> 'wc store" where
  "driver_does wch (TakesChunk a) s =
     (case try_recv wch (st_chans s a) of
        Inl e \<Rightarrow> s
      | Inr (w, c) \<Rightarrow> s\<lparr>st_chans := (st_chans s)(a := c)\<rparr>)"
| "driver_does wch (DropsReceiver a) s =
     s\<lparr>st_chans := (st_chans s)(a := rx_drop wch (st_chans s a))\<rparr>"

lemma driver_does_keeps [simp]:
  "st_slots (driver_does wch op s) = st_slots s" "st_maps (driver_does wch op s) = st_maps s"
  "st_next (driver_does wch op s) = st_next s" "st_trace (driver_does wch op s) = st_trace s"
  by (cases op; simp split: sum.split)+

primrec run_prog ::
  "('wc, stream_writer) mpsc \<Rightarrow> 'wc php_engine \<Rightarrow> php_prog \<Rightarrow> mutex set \<Rightarrow> 'wc store \<Rightarrow>
   'wc store option" where
  "run_prog wch pe Done held s = Some s"
| "run_prog wch pe (Call op k) held s =
     (case php_call wch pe op held s of
        None \<Rightarrow> None
      | Some (r, s') \<Rightarrow> run_prog wch pe (k r) held s')"
| "run_prog wch pe (Meanwhile op p) held s = run_prog wch pe p held (driver_does wch op s)"

subsection \<open>Three shapes of a method call\<close>

text \<open>
  Whatever method is called, on whatever object, the store is left alone, or one slot gets a
  callable value, or one stream is registered, or one chunk is queued and a driver is woken.
\<close>

inductive php_effect ::
  "('wc, stream_writer) mpsc \<Rightarrow> (zval \<Rightarrow> bool) \<Rightarrow> mutex set \<Rightarrow> 'wc store \<Rightarrow> 'wc store \<Rightarrow> bool"
  for wch callable held s where
  nothing: "php_effect wch callable held s s"
| install: "callable cb \<Longrightarrow> SlotMutex a \<notin> held \<Longrightarrow>
     php_effect wch callable held s (s\<lparr>st_slots := (st_slots s)(a := Some cb)\<rparr>)"
| register: "MapMutex m \<notin> held \<Longrightarrow>
     php_effect wch callable held s (register_stream m i s)"
| queue: "try_send wch chunk (st_chans s tx) = Inr c \<Longrightarrow>
     php_effect wch callable held s
       (emit (Notified n) (s\<lparr>st_chans := (st_chans s)(tx := c)\<rparr>))"

inductive_cases php_effectE: "php_effect wch callable held s s'"

lemma send_chunk_effect:
  "apfst f (send_chunk wch tx n chunk label s) = (r, s') \<Longrightarrow> php_effect wch callable held s s'"
  by (cases rule: send_chunk_cases [of wch chunk s tx n label])
    (auto intro: php_effect.intros)

lemma install_slot_effect:
  "install_slot callable a cb name held s = Some (r, s') \<Longrightarrow> php_effect wch callable held s s'"
  by (auto simp: install_slot_Some intro: php_effect.intros split: if_splits)

lemma php_call_effect:
  assumes "php_call wch pe op held s = Some (r, s')"
  shows "php_effect wch (pe_callable pe) held s s'"
  using assms
  by (cases op)
    (auto simp: stream_defs undefined_method_def prepare_bidi_stream_eq prepare_uni_stream_eq
      intro: php_effect.nothing php_effect.register
      dest: install_slot_effect send_chunk_effect
      split: php_object.splits if_splits)

subsection \<open>Which locks a program needs\<close>

fun op_locks :: "(zval \<Rightarrow> bool) \<Rightarrow> php_op \<Rightarrow> mutex set" where
  "op_locks callable (SetOnData obj cb) =
     (if callable cb
      then (case obj of
              IncomingBidi x \<Rightarrow> {SlotMutex (ib_on_data x)}
            | IncomingUni x \<Rightarrow> {SlotMutex (iu_on_data x)}
            | Bidi x \<Rightarrow> {SlotMutex (bi_on_data x)}
            | Uni x \<Rightarrow> {})
      else {})"
| "op_locks callable (SetOnClose obj cb) =
     (if callable cb
      then (case obj of
              IncomingBidi x \<Rightarrow> {SlotMutex (ib_on_close x)}
            | IncomingUni x \<Rightarrow> {SlotMutex (iu_on_close x)}
            | Bidi x \<Rightarrow> {SlotMutex (bi_on_close x)}
            | Uni x \<Rightarrow> {SlotMutex (un_on_close x)})
      else {})"
| "op_locks callable (OpenBidiStream obj i) =
     (case obj of
        IncomingBidi x \<Rightarrow> {MapMutex (coh_callbacks (ib_conn_handle x))}
      | IncomingUni x \<Rightarrow> {MapMutex (coh_callbacks (iu_conn_handle x))}
      | _ \<Rightarrow> {})"
| "op_locks callable (OpenUniStream obj i) =
     (case obj of
        IncomingBidi x \<Rightarrow> {MapMutex (coh_callbacks (ib_conn_handle x))}
      | IncomingUni x \<Rightarrow> {MapMutex (coh_callbacks (iu_conn_handle x))}
      | _ \<Rightarrow> {})"
| "op_locks callable (Write obj data fin) = {}"
| "op_locks callable (CloseStream obj) = {}"

lemma php_call_None_iff:
  "php_call wch pe op held s = None \<longleftrightarrow> op_locks (pe_callable pe) op \<inter> held \<noteq> {}"
  by (cases op)
    (auto simp: stream_defs undefined_method_def prepare_bidi_stream_eq prepare_uni_stream_eq
      install_slot_def with_lock_def split: php_object.splits option.splits)

primrec prog_avoids :: "(zval \<Rightarrow> bool) \<Rightarrow> mutex set \<Rightarrow> php_prog \<Rightarrow> bool" where
  "prog_avoids callable held Done \<longleftrightarrow> True"
| "prog_avoids callable held (Call op k) \<longleftrightarrow>
     op_locks callable op \<inter> held = {} \<and> (\<forall>r. prog_avoids callable held (k r))"
| "prog_avoids callable held (Meanwhile op p) \<longleftrightarrow> prog_avoids callable held p"

lemma run_prog_returns:
  "prog_avoids (pe_callable pe) held p \<Longrightarrow> \<exists>s'. run_prog wch pe p held s = Some s'"
proof (induction p arbitrary: s)
  case Done
  then show ?case by simp
next
  case (Call op k)
  then have "php_call wch pe op held s \<noteq> None"
    by (simp add: php_call_None_iff)
  then obtain r s' where rs: "php_call wch pe op held s = Some (r, s')" by auto
  moreover have "\<exists>s''. run_prog wch pe (k r) held s' = Some s''"
    using Call by (intro Call.IH) auto
  ultimately show ?case by simp
qed simp

lemma run_prog_no_locks: "prog_avoids callable {} p"
  by (induction p) auto

text \<open>Every path through the program comes to a method that needs the lock.\<close>

primrec prog_needs :: "(zval \<Rightarrow> bool) \<Rightarrow> mutex \<Rightarrow> php_prog \<Rightarrow> bool" where
  "prog_needs callable m Done \<longleftrightarrow> False"
| "prog_needs callable m (Call op k) \<longleftrightarrow>
     m \<in> op_locks callable op \<or> (\<forall>r. prog_needs callable m (k r))"
| "prog_needs callable m (Meanwhile op p) \<longleftrightarrow> prog_needs callable m p"

lemma run_prog_hangs:
  assumes "prog_needs (pe_callable pe) m p" "m \<in> held"
  shows "run_prog wch pe p held s = None"
  using assms(1)
proof (induction p arbitrary: s)
  case (Call op k)
  show ?case
  proof (cases "php_call wch pe op held s")
    case (Some rs)
    then have "m \<notin> op_locks (pe_callable pe) op"
      using php_call_None_iff [of wch pe op held s] assms(2) by auto
    then show ?thesis using Call Some by (cases rs) auto
  qed simp
qed simp_all

subsection \<open>Invariants of the store under PHP code\<close>

text \<open>
  The contract between the store and whoever runs PHP code in it: an invariant that the three
  effects of a method call and the operations of the drivers keep. Then every PHP program keeps it.
  With \<open>store_invariant\<close> it is also kept when the call of a stream or data callback is recorded.
\<close>

locale php_invariant =
  fixes wch :: "('wc, stream_writer) mpsc"
    and callable :: "zval \<Rightarrow> bool"
    and inv :: "'wc store \<Rightarrow> bool"
  assumes inv_install:
      "inv s \<Longrightarrow> callable cb \<Longrightarrow> inv (s\<lparr>st_slots := (st_slots s)(a := Some cb)\<rparr>)"
    and inv_register: "inv s \<Longrightarrow> inv (register_stream m i s)"
    and inv_queue:
      "inv s \<Longrightarrow> try_send wch chunk (st_chans s tx) = Inr c \<Longrightarrow>
         inv (emit (Notified n) (s\<lparr>st_chans := (st_chans s)(tx := c)\<rparr>))"
    and inv_driver: "inv s \<Longrightarrow> inv (driver_does wch op s)"
begin

lemma php_effect_inv: "php_effect wch callable held s s' \<Longrightarrow> inv s \<Longrightarrow> inv s'"
  by (induction rule: php_effect.induct) (auto intro: inv_install inv_register inv_queue)

lemma run_prog_inv:
  assumes "pe_callable pe = callable"
  shows "run_prog wch pe p held s = Some s' \<Longrightarrow> inv s \<Longrightarrow> inv s'"
proof (induction p arbitrary: s)
  case Done
  then show ?case by simp
next
  case (Call op k)
  then obtain r s1 where "php_call wch pe op held s = Some (r, s1)"
    and "run_prog wch pe (k r) held s1 = Some s'"
    by (auto split: option.splits)
  moreover from this(1) have "php_effect wch callable held s s1"
    unfolding assms [symmetric] by (rule php_call_effect)
  ultimately show ?case
    using Call.IH [of "k r" s1] Call.prems(2) php_effect_inv by blast
next
  case (Meanwhile op p)
  then show ?case using inv_driver by simp
qed

end

locale store_invariant = php_invariant +
  assumes inv_called_stream: "inv s \<Longrightarrow> inv (emit (CalledStream z obj) s)"
    and inv_called_data: "inv s \<Longrightarrow> inv (emit (CalledData a z d fin) s)"

subsection \<open>What a program leaves alone\<close>

text \<open>
  The locks that the thread holds decide only whether a method returns. So a program that keeps
  off some locks behaves as if they were held, and what they protect is as before.
\<close>

lemma php_call_held:
  assumes "op_locks (pe_callable pe) op \<inter> held = {}" "op_locks (pe_callable pe) op \<inter> held' = {}"
  shows "php_call wch pe op held s = php_call wch pe op held' s"
  using assms
  by (cases op)
    (auto simp: stream_defs install_slot_def prepare_bidi_stream_eq prepare_uni_stream_eq
      split: php_object.splits)

lemma run_prog_held:
  assumes "prog_avoids (pe_callable pe) held' p" "run_prog wch pe p held s = Some s'"
  shows "run_prog wch pe p (held \<union> held') s = Some s'"
  using assms
proof (induction p arbitrary: s)
  case Done
  then show ?case by simp
next
  case (Call op k)
  then obtain r s1 where s1: "php_call wch pe op held s = Some (r, s1)"
    "run_prog wch pe (k r) held s1 = Some s'"
    by (auto split: option.splits)
  have free: "op_locks (pe_callable pe) op \<inter> held = {}" "op_locks (pe_callable pe) op \<inter> held' = {}"
    using php_call_None_iff [of wch pe op held s] s1(1) Call.prems(1) by auto
  then have "php_call wch pe op (held \<union> held') s = Some (r, s1)"
    using php_call_held [of pe op held "held \<union> held'" wch s] s1(1) by (simp add: Int_Un_distrib)
  moreover have "run_prog wch pe (k r) (held \<union> held') s1 = Some s'"
    using Call.IH [OF _ _ s1(2)] Call.prems(1) by auto
  ultimately show ?case by simp
qed simp

lemma run_prog_locked:
  assumes "run_prog wch pe p held s = Some s'"
  shows "(MapMutex m \<in> held \<longrightarrow> st_maps s' m = st_maps s m) \<and>
     (SlotMutex a \<in> held \<longrightarrow> a < st_next s \<longrightarrow> st_slots s' a = st_slots s a) \<and>
     st_next s \<le> st_next s'"
  using assms
proof (induction p arbitrary: s)
  case Done
  then show ?case by simp
next
  case (Call op k)
  then obtain r s1 where s1: "php_call wch pe op held s = Some (r, s1)"
    "run_prog wch pe (k r) held s1 = Some s'"
    by (auto split: option.splits)
  have "(MapMutex m \<in> held \<longrightarrow> st_maps s1 m = st_maps s m) \<and>
     (SlotMutex a \<in> held \<longrightarrow> a < st_next s \<longrightarrow> st_slots s1 a = st_slots s a) \<and> st_next s \<le> st_next s1"
    using php_call_effect [OF s1(1)] by (elim php_effectE) auto
  then show ?case using Call.IH [OF _ s1(2)] by force
next
  case (Meanwhile op p)
  then show ?case by force
qed

lemma run_prog_frame:
  assumes "prog_avoids (pe_callable pe) held' p" "run_prog wch pe p held s = Some s'"
  shows "MapMutex m \<in> held' \<Longrightarrow> st_maps s' m = st_maps s m"
    "SlotMutex a \<in> held' \<Longrightarrow> a < st_next s \<Longrightarrow> st_slots s' a = st_slots s a"
  using run_prog_locked [OF run_prog_held [OF assms]] by auto

subsection \<open>Properties\<close>

text \<open>What the sending side of an object is: its channel, its \<open>Notify\<close> and its stream id.\<close>

fun write_end :: "php_object \<Rightarrow> (addr \<times> addr \<times> u64) option" where
  "write_end (IncomingBidi x) = Some (ib_write_tx x, ib_write_notify x, ib_stream_id x)"
| "write_end (IncomingUni x) = None"
| "write_end (Bidi x) = Some (bi_write_tx x, bi_write_notify x, bi_stream_id x)"
| "write_end (Uni x) = Some (un_write_tx x, un_write_notify x, un_stream_id x)"

text \<open>The map in which the streams opened through an object are registered.\<close>

fun open_end :: "php_object \<Rightarrow> conn_open_handle option" where
  "open_end (IncomingBidi x) = Some (ib_conn_handle x)"
| "open_end (IncomingUni x) = Some (iu_conn_handle x)"
| "open_end _ = None"

fun on_data_slot :: "php_object \<Rightarrow> addr option" where
  "on_data_slot (IncomingBidi x) = Some (ib_on_data x)"
| "on_data_slot (IncomingUni x) = Some (iu_on_data x)"
| "on_data_slot (Bidi x) = Some (bi_on_data x)"
| "on_data_slot (Uni x) = None"

fun_cases write_endE: "write_end obj = Some (tx, notify, i)"

lemma php_call_write:
  assumes "write_end obj = Some (tx, notify, i)"
  shows "php_call wch pe (Write obj data fin) held s =
     Some (apfst unit_result (send_chunk wch tx notify (i, Some data, fin) ''write'' s))"
    "php_call wch pe (CloseStream obj) held s =
     Some (apfst unit_result (send_chunk wch tx notify (i, Some [], True) ''close'' s))"
  using assms by (auto elim!: write_endE simp: stream_defs)

text \<open>Two objects and an engine to evaluate the properties on.\<close>

definition example_handle :: conn_open_handle where
  "example_handle = \<lparr>coh_conn_id = 7, coh_peer_addr = ''127.0.0.1:4000'', coh_write_tx = 0,
     coh_write_notify = 1, coh_callbacks = 2\<rparr>"

definition example_incoming :: php_object where
  "example_incoming = IncomingBidi \<lparr>ib_conn_id = 7, ib_stream_id = 4,
     ib_peer_addr = ''127.0.0.1:4000'', ib_write_tx = 0, ib_write_notify = 1,
     ib_on_data = 3, ib_on_close = 4, ib_conn_handle = example_handle\<rparr>"

definition example_engine :: "'wc php_engine" where
  "example_engine = \<lparr>pe_callable = (\<lambda>z. z \<noteq> Zval 0), pe_script = (\<lambda>_ _ _. Done)\<rparr>"

definition example_store :: "stream_writer fifo store" where
  "example_store = \<lparr>st_slots = Map.empty, st_maps = (\<lambda>_. Map.empty),
     st_chans = (\<lambda>_. mpsc_channel fifo_mpsc 2), st_next = 5, st_trace = []\<rparr>"

text \<open>
  What a driver does between two calls matters to the program: with one free place in the write
  channel the second \<open>write\<close> throws, unless the driver takes the first chunk in between.
\<close>

definition two_writes :: "driver_op list \<Rightarrow> php_prog" where
  "two_writes ops = Call (Write example_incoming [1] False) (\<lambda>_. foldr Meanwhile ops
     (Call (Write example_incoming [2] False) (\<lambda>r. if r = PhpUnit then Done
        else Call (SetOnData example_incoming (Zval 1)) (\<lambda>_. Done))))"

lemma two_writes_interleaved:
  "map_option (\<lambda>s. (st_slots s 3, fifo_items (st_chans s 0)))
     (run_prog fifo_mpsc example_engine (two_writes ops) {}
       (example_store\<lparr>st_chans := (\<lambda>_. mpsc_channel fifo_mpsc 1)\<rparr>)) =
   (if ops = [TakesChunk 0] then Some (None, [(4, Some [2], False)])
    else Some (Some (Zval 1), [(4, Some [1], False)]))"
  if "ops = [] \<or> ops = [TakesChunk 0]"
  using that by (elim disjE) (simp_all add: two_writes_def example_incoming_def example_handle_def
      example_store_def example_engine_def stream_defs install_slot_def send_chunk_def fifo_simps)

text \<open>C26: \<open>write\<close> never blocks, whatever locks the PHP thread holds, so it may be called inside a
  callback. With a free place in the connection's write channel it queues exactly one chunk,
  the data with the stream's id and the FIN flag, behind what is queued, wakes the driver once
  and changes nothing else. Otherwise it throws and nothing at all changes.\<close>

theorem write_queues_one_chunk:
  assumes "mpsc_fifo wch items room live" "write_end obj = Some (tx, notify, i)"
  shows "\<exists>r s'. php_call wch pe (Write obj data fin) held s = Some (r, s') \<and>
     (if live (st_chans s tx) \<and> 0 < room (st_chans s tx)
      then r = PhpUnit \<and>
           (\<exists>c. items c = items (st_chans s tx) @ [(i, Some data, fin)] \<and>
              room c = room (st_chans s tx) - 1 \<and>
              s' = s\<lparr>st_chans := (st_chans s)(tx := c), st_trace := st_trace s @ [Notified notify]\<rparr>)
      else s' = s \<and> (\<exists>e. r = PhpThrown
             (php_default (''write failed: '' @ display_send_error wch e))))"
  unfolding php_call_write [OF assms(2)]
  by (rule mpsc_fifo.try_send_cases [OF assms(1), of "st_chans s tx" "(i, Some data, fin)"])
    (auto simp: send_chunk_def emit_def)

theorem write_queues_one_chunk_witness:
  "\<exists>r s'. php_call fifo_mpsc example_engine (Write example_incoming [1, 2] False)
       {SlotMutex 3, MapMutex 2} example_store = Some (r, s') \<and> r = PhpUnit \<and>
     fifo_items (st_chans s' 0) = [(4, Some [1, 2], False)] \<and> st_trace s' = [Notified 1]"
proof -
  have "write_end example_incoming = Some (0, 1, 4)"
    by (simp add: example_incoming_def)
  from write_queues_one_chunk [OF fifo.mpsc_fifo_axioms this, of example_engine "[1, 2]" False
      "{SlotMutex 3, MapMutex 2}" example_store]
  show ?thesis by (auto simp: example_store_def fifo_mpsc_def)
qed

text \<open>\<open>close\<close> of a stream is a \<open>write\<close> of no data with the FIN, for every class that has it:
  the store afterwards is the same, it fails in the same states, and only the text of the
  exception differs.\<close>

lemma close_is_empty_fin:
  "\<exists>r r' s'. php_call wch pe (CloseStream obj) held s = Some (r, s') \<and>
     php_call wch pe (Write obj [] True) held s = Some (r', s') \<and>
     (r = r' \<or> (\<exists>e. r = PhpThrown (php_default (''close failed: '' @ display_send_error wch e)) \<and>
        r' = PhpThrown (php_default (''write failed: '' @ display_send_error wch e))))"
proof (cases "write_end obj")
  case None
  then show ?thesis by (cases obj) (auto simp: undefined_method_def)
next
  case (Some w)
  then obtain tx notify i where w: "write_end obj = Some (tx, notify, i)" by (cases w) auto
  show ?thesis
    unfolding php_call_write [OF w]
    by (cases "try_send wch (i, Some [], True) (st_chans s tx)") (auto simp: send_chunk_def)
qed

text \<open>\<open>setOnData\<close> accepts callables only: for any other value it throws and changes nothing.
  A callable is stored in the object's own \<open>on_data\<close> slot, replacing what was there, and
  nothing else changes.\<close>

lemma set_on_data_installs:
  assumes "on_data_slot obj = Some a" "SlotMutex a \<notin> held"
  shows "php_call wch pe (SetOnData obj cb) held s =
     Some (if pe_callable pe cb
           then (PhpUnit, s\<lparr>st_slots := (st_slots s)(a \<mapsto> cb)\<rparr>)
           else (PhpThrown (php_default ''setOnData expects a callable''), s))"
  using assms by (cases obj) (auto simp: stream_defs install_slot_def)


text \<open>Opening a stream from an incoming stream registers two fresh, empty slots under the given
  id in the callback map of the same connection, where they replace any slots of that id, and
  returns an object with exactly these slots, the connection's id and its write channel.\<close>

lemma open_bidi_stream_registers:
  assumes "open_end obj = Some h" "MapMutex (coh_callbacks h) \<notin> held"
  shows "\<exists>b s'. php_call wch pe (OpenBidiStream obj i) held s = Some (PhpObject (Bidi b), s') \<and>
     bi_conn_id b = coh_conn_id h \<and> bi_stream_id b = i \<and>
     bi_write_tx b = coh_write_tx h \<and> bi_write_notify b = coh_write_notify h \<and>
     st_maps s' = (st_maps s)(coh_callbacks h := (st_maps s (coh_callbacks h))
       (i \<mapsto> \<lparr>ss_on_data = bi_on_data b, ss_on_close = bi_on_close b\<rparr>)) \<and>
     bi_on_data b \<ge> st_next s \<and> bi_on_close b \<ge> st_next s \<and> bi_on_data b \<noteq> bi_on_close b \<and>
     st_slots s' = (st_slots s)(bi_on_data b := None, bi_on_close b := None) \<and>
     st_chans s' = st_chans s \<and> st_trace s' = st_trace s"
  using assms
  by (cases obj) (auto simp: stream_defs prepare_bidi_stream_eq)


end
