(* ===== verification/Server.thy ===== *)
theory Server
  imports Php
begin

text \<open>
  \<open>src/quiche/socket.rs\<close>: the server loop that runs on the PHP thread. It owns the
  connections, the two channels that all drivers send into, and the stream callback; it
  accepts connections, turns driver events into PHP calls and reports closed connections.

  \<open>wch\<close>, \<open>ech\<close> and \<open>cch\<close> are the implementations of the write, event and close channels,
  \<open>pe\<close> is the PHP engine. Every function here starts on the PHP thread with no lock held.
\<close>

definition SERVER_EVENT_CHANNEL_CAPACITY :: nat where
  "SERVER_EVENT_CHANNEL_CAPACITY = 8192"

definition CONN_CLOSE_CHANNEL_CAPACITY :: nat where
  "CONN_CLOSE_CHANNEL_CAPACITY = 1024"

text \<open>
  \<open>sv_listening\<close> tells the merged stream of all listeners from the empty \<open>SelectAll\<close> that
  \<open>close\<close> puts in its place.
\<close>

record ('ec, 'cc) server =
  sv_listening :: bool
  sv_connections :: "u64 \<rightharpoonup> conn_state"
  sv_id_counter :: u64
  sv_stream_callback :: "zval option"
  sv_events :: 'ec
  sv_closes :: 'cc

subsection \<open>Calling PHP\<close>

definition fire_on_close ::
  "('wc, stream_writer) mpsc \<Rightarrow> 'wc php_engine \<Rightarrow> bool \<Rightarrow> addr \<Rightarrow> mutex set \<Rightarrow> 'wc store \<Rightarrow>
   'wc store option" where
  "fire_on_close wch pe peer_closed slot held s =
     with_lock (SlotMutex slot) held (\<lambda>held'.
       case st_slots s slot of
         Some cb \<Rightarrow>
           if pe_callable pe cb
           then (let s1 = emit (CalledClose slot cb peer_closed) s
                 in run_prog wch pe (pe_script pe s1 cb [PhpBool peer_closed]) held' s1)
           else Some s
       | None \<Rightarrow> Some s)"

definition call_stream_callback ::
  "('wc, stream_writer) mpsc \<Rightarrow> 'wc php_engine \<Rightarrow> zval option \<Rightarrow> php_object \<Rightarrow> mutex set \<Rightarrow>
   'wc store \<Rightarrow> 'wc store option" where
  "call_stream_callback wch pe callback obj held s =
     with_lock StreamCallbackMutex held (\<lambda>held'.
       case callback of
         Some cb \<Rightarrow>
           if pe_callable pe cb
           then (let s1 = emit (CalledStream cb obj) s
                 in run_prog wch pe (pe_script pe s1 cb [PhpObj obj]) held' s1)
           else Some s
       | None \<Rightarrow> Some s)"

text \<open>\<open>on_data.lock()\<close> is held while the callback runs.\<close>

definition call_on_data ::
  "('wc, stream_writer) mpsc \<Rightarrow> 'wc php_engine \<Rightarrow> addr \<Rightarrow> bytes \<Rightarrow> bool \<Rightarrow> mutex set \<Rightarrow>
   'wc store \<Rightarrow> 'wc store option" where
  "call_on_data wch pe slot data fin held s =
     with_lock (SlotMutex slot) held (\<lambda>held'.
       case st_slots s slot of
         Some cb \<Rightarrow>
           if pe_callable pe cb
           then (let s1 = emit (CalledData slot cb data fin) s
                 in run_prog wch pe (pe_script pe s1 cb [PhpStr data, PhpBool fin]) held' s1)
           else Some s
       | None \<Rightarrow> Some s)"

lemmas callback_steps [step_simps] = fire_on_close_def call_stream_callback_def call_on_data_def
  with_lock_Some Let_def

subsection \<open>Draining the callbacks of a connection\<close>

text \<open>
  \<open>slots_map.drain()\<close> under the lock of the map: \<open>fire_on_close\<close> for each entry, in the
  order \<open>ord\<close> of the hash map. Nobody sees the map before the lock is released.
\<close>

fun fire_all ::
  "('wc, stream_writer) mpsc \<Rightarrow> 'wc php_engine \<Rightarrow> bool \<Rightarrow> addr list \<Rightarrow> mutex set \<Rightarrow> 'wc store \<Rightarrow>
   'wc store option" where
  "fire_all wch pe peer_closed [] held s = Some s"
| "fire_all wch pe peer_closed (slot # slots) held s =
     (case fire_on_close wch pe peer_closed slot held s of
        None \<Rightarrow> None
      | Some s1 \<Rightarrow> fire_all wch pe peer_closed slots held s1)"

definition close_slots :: "(u64 set \<Rightarrow> u64 list) \<Rightarrow> php_stream_callbacks \<Rightarrow> addr list" where
  "close_slots ord m = map ss_on_close (List.map_filter m (ord (dom m)))"

definition drain_callbacks ::
  "('wc, stream_writer) mpsc \<Rightarrow> 'wc php_engine \<Rightarrow> (u64 set \<Rightarrow> u64 list) \<Rightarrow> bool \<Rightarrow> addr \<Rightarrow>
   'wc store \<Rightarrow> 'wc store option" where
  "drain_callbacks wch pe ord peer_closed m s =
     with_lock (MapMutex m) {} (\<lambda>held.
       fire_all wch pe peer_closed (close_slots ord (st_maps s m)) held
         (s\<lparr>st_maps := (st_maps s)(m := Map.empty)\<rparr>))"

subsection \<open>\<open>close\<close>\<close>

fun close_connections ::
  "('wc, stream_writer) mpsc \<Rightarrow> 'wc php_engine \<Rightarrow> (addr \<Rightarrow> u64 set \<Rightarrow> u64 list) \<Rightarrow>
   conn_state list \<Rightarrow> 'wc store \<Rightarrow> 'wc store option" where
  "close_connections wch pe mord [] s = Some s"
| "close_connections wch pe mord (state # states) s =
     (case drain_callbacks wch pe (mord (cs_callbacks state)) False (cs_callbacks state) s of
        None \<Rightarrow> None
      | Some s1 \<Rightarrow> close_connections wch pe mord states s1)"

definition server_close ::
  "('wc, stream_writer) mpsc \<Rightarrow> 'wc php_engine \<Rightarrow> (u64 set \<Rightarrow> u64 list) \<Rightarrow>
   (addr \<Rightarrow> u64 set \<Rightarrow> u64 list) \<Rightarrow> ('ec, 'cc) server \<Rightarrow> 'wc store \<Rightarrow>
   (('ec, 'cc) server \<times> 'wc store) option" where
  "server_close wch pe cord mord sv s =
     (case close_connections wch pe mord
             (List.map_filter (sv_connections sv) (cord (dom (sv_connections sv)))) s of
        None \<Rightarrow> None
      | Some s1 \<Rightarrow> Some (sv\<lparr>sv_connections := Map.empty, sv_listening := False\<rparr>, s1))"

subsection \<open>The arms of the loop\<close>

text \<open>A new connection: an id, a record and a driver, which tokio-quiche then runs.\<close>

definition accept_connection ::
  "('wc, stream_writer) mpsc \<Rightarrow> string \<Rightarrow> ('ec, 'cc) server \<Rightarrow> 'wc store \<Rightarrow>
   (('ec, 'cc) server \<times> driver) \<times> 'wc store" where
  "accept_connection wch peer_addr sv s =
     (let conn_id = sv_id_counter sv in
      case build wch conn_id peer_addr s of
        ((state, drv), s1) \<Rightarrow>
          ((sv\<lparr>sv_id_counter := conn_id + 1,
               sv_connections := (sv_connections sv)(conn_id \<mapsto> state)\<rparr>, drv),
           emit (Started drv) s1))"

definition conn_closed ::
  "('wc, stream_writer) mpsc \<Rightarrow> 'wc php_engine \<Rightarrow> (u64 set \<Rightarrow> u64 list) \<Rightarrow> u64 \<Rightarrow> bool \<Rightarrow>
   ('ec, 'cc) server \<Rightarrow> 'wc store \<Rightarrow> (('ec, 'cc) server \<times> 'wc store) option" where
  "conn_closed wch pe ord conn_id peer_initiated sv s =
     (case sv_connections sv conn_id of
        None \<Rightarrow> Some (sv, s)
      | Some state \<Rightarrow>
          (case drain_callbacks wch pe ord peer_initiated (cs_callbacks state) s of
             None \<Rightarrow> None
           | Some s1 \<Rightarrow> Some (sv\<lparr>sv_connections := (sv_connections sv)(conn_id := None)\<rparr>, s1)))"

definition incoming_bidi :: "u64 \<Rightarrow> u64 \<Rightarrow> conn_state \<Rightarrow> addr \<Rightarrow> addr \<Rightarrow> php_object" where
  "incoming_bidi conn_id stream_id state on_data on_close =
     IncomingBidi
       \<lparr>ib_conn_id = conn_id, ib_stream_id = stream_id, ib_peer_addr = cs_peer_addr state,
        ib_write_tx = coh_write_tx (cs_open_handle state),
        ib_write_notify = coh_write_notify (cs_open_handle state),
        ib_on_data = on_data, ib_on_close = on_close, ib_conn_handle = cs_open_handle state\<rparr>"

definition incoming_uni :: "u64 \<Rightarrow> u64 \<Rightarrow> conn_state \<Rightarrow> addr \<Rightarrow> addr \<Rightarrow> php_object" where
  "incoming_uni conn_id stream_id state on_data on_close =
     IncomingUni
       \<lparr>iu_conn_id = conn_id, iu_stream_id = stream_id, iu_peer_addr = cs_peer_addr state,
        iu_on_data = on_data, iu_on_close = on_close, iu_conn_handle = cs_open_handle state\<rparr>"

definition dispatch_new_stream ::
  "('wc, stream_writer) mpsc \<Rightarrow> 'wc php_engine \<Rightarrow> (addr \<Rightarrow> addr \<Rightarrow> php_object) \<Rightarrow> u64 \<Rightarrow>
   conn_state \<Rightarrow> ('ec, 'cc) server \<Rightarrow> 'wc store \<Rightarrow> 'wc store option" where
  "dispatch_new_stream wch pe incoming stream_id state sv s =
     (case make_slot_pair s of
        ((on_data, on_close), s1) \<Rightarrow>
          with_lock (MapMutex (cs_callbacks state)) {} (\<lambda>_.
            Some (insert_slots (cs_callbacks state) stream_id
                    \<lparr>ss_on_data = on_data, ss_on_close = on_close\<rparr> s1))
          \<bind> (\<lambda>s2. call_stream_callback wch pe (sv_stream_callback sv)
                     (incoming on_data on_close) {} s2))"

definition dispatch_data ::
  "('wc, stream_writer) mpsc \<Rightarrow> 'wc php_engine \<Rightarrow> u64 \<Rightarrow> bytes \<Rightarrow> bool \<Rightarrow> conn_state \<Rightarrow>
   'wc store \<Rightarrow> 'wc store option" where
  "dispatch_data wch pe stream_id data fin state s =
     do {
       on_data_slot \<leftarrow> with_lock (MapMutex (cs_callbacks state)) {} (\<lambda>_.
         Some (map_option ss_on_data (st_maps s (cs_callbacks state) stream_id)));
       s1 \<leftarrow> (case on_data_slot of
                Some slot \<Rightarrow> call_on_data wch pe slot data fin {} s
              | None \<Rightarrow> Some s);
       if fin
       then do {
         (removed, s2) \<leftarrow> with_lock (MapMutex (cs_callbacks state)) {} (\<lambda>_.
           Some (st_maps s1 (cs_callbacks state) stream_id,
                 s1\<lparr>st_maps := (st_maps s1)
                      (cs_callbacks state := (st_maps s1 (cs_callbacks state))
                         (stream_id := None))\<rparr>));
         (case removed of
            Some slots \<Rightarrow> fire_on_close wch pe True (ss_on_close slots) {} s2
          | None \<Rightarrow> Some s2)
       }
       else Some s1
     }"

definition dispatch_driver_event ::
  "('wc, stream_writer) mpsc \<Rightarrow> 'wc php_engine \<Rightarrow> u64 \<Rightarrow> driver_event \<Rightarrow>
   ('ec, 'cc) server \<Rightarrow> 'wc store \<Rightarrow> 'wc store option" where
  "dispatch_driver_event wch pe conn_id ev sv s =
     (case sv_connections sv conn_id of
        None \<Rightarrow> Some s
      | Some state \<Rightarrow>
          (case ev of
             NewBidi i \<Rightarrow>
               dispatch_new_stream wch pe (incoming_bidi conn_id i state) i state sv s
           | NewUni i \<Rightarrow>
               dispatch_new_stream wch pe (incoming_uni conn_id i state) i state sv s
           | Data i data fin \<Rightarrow> dispatch_data wch pe i data fin state s))"

subsection \<open>The select and the loop\<close>

datatype tick_event =
    NewConn "io_error + string"
  | DriverEv u64 driver_event
  | ConnClosed u64 bool
  | TimerFired

text \<open>
  One pass of the biased \<open>select!\<close>: the arms are polled in the order of the source and the
  first that is ready is taken. \<open>accept\<close> is what the merged listener stream has ready, and
  \<open>efd\<close> is \<open>None\<close> without an eventfd and tells otherwise whether the read of it completes, with
  a value or with an error; both leave the loop. \<open>None\<close> means that no arm is ready, and the
  loop sleeps. The event channel is given as it is when its arm is polled, and the close channel
  as it is when its arm is polled, a little later.
\<close>

definition select_event ::
  "('ec, u64 \<times> driver_event) mpsc \<Rightarrow> ('cc, u64 \<times> bool) mpsc \<Rightarrow> (io_error + string) option \<Rightarrow>
   bool option \<Rightarrow> ('ec, 'cc) server \<Rightarrow> (tick_event \<times> ('ec, 'cc) server) option" where
  "select_event ech cch accept efd sv =
     (case try_recv ech (sv_events sv) of
        Inr ((conn_id, ev), c) \<Rightarrow> Some (DriverEv conn_id ev, sv\<lparr>sv_events := c\<rparr>)
      | Inl _ \<Rightarrow>
          (case try_recv cch (sv_closes sv) of
             Inr ((conn_id, peer_initiated), c) \<Rightarrow>
               Some (ConnClosed conn_id peer_initiated, sv\<lparr>sv_closes := c\<rparr>)
           | Inl _ \<Rightarrow>
               (case (if sv_listening sv then accept else None) of
                  Some r \<Rightarrow> Some (NewConn r, sv)
                | None \<Rightarrow> (if efd = Some True then Some (TimerFired, sv) else None))))"

text \<open>The \<open>match\<close> of the loop body; the boolean says whether the loop is left.\<close>

definition handle_event ::
  "('wc, stream_writer) mpsc \<Rightarrow> 'wc php_engine \<Rightarrow> (u64 set \<Rightarrow> u64 list) \<Rightarrow> tick_event \<Rightarrow>
   ('ec, 'cc) server \<Rightarrow> 'wc store \<Rightarrow> (bool \<times> ('ec, 'cc) server \<times> 'wc store) option" where
  "handle_event wch pe ord ev sv s =
     (case ev of
        NewConn (Inr peer_addr) \<Rightarrow>
          (case accept_connection wch peer_addr sv s of ((sv', drv), s') \<Rightarrow> Some (False, sv', s'))
      | NewConn (Inl e) \<Rightarrow> Some (False, sv, s)
      | ConnClosed conn_id peer_initiated \<Rightarrow>
          map_option (Pair False) (conn_closed wch pe ord conn_id peer_initiated sv s)
      | DriverEv conn_id dev \<Rightarrow>
          map_option (\<lambda>s'. (False, sv, s')) (dispatch_driver_event wch pe conn_id dev sv s)
      | TimerFired \<Rightarrow> Some (True, sv, s))"

text \<open>
  What the rest of the world did for a pass of the loop: \<open>ti_events\<close> is what other threads sent
  into the event channel up to the moment its arm is polled, \<open>ti_closes\<close> what they sent into the
  close channel up to the moment that one is polled; \<open>ti_accept\<close> is a connection that is ready to
  be accepted, and \<open>ti_readable\<close> says whether the read of the eventfd completes. An event that is
  sent between the two polls belongs to the next pass, even if the close report sent right after
  it belongs to this one. So a pass may take a close report that was sent after an event which is
  still to come.
\<close>

record ('ec, 'cc) tick_input =
  ti_events :: "'ec \<Rightarrow> 'ec"
  ti_closes :: "'cc \<Rightarrow> 'cc"
  ti_accept :: "(io_error + string) option"
  ti_readable :: bool

datatype tick_status = Exited | Looping

text \<open>
  \<open>tick\<close> over the inputs of its passes. The loop has no bound of its own: after the given
  inputs it is either left (\<open>Exited\<close>) or still in the loop.
\<close>

fun tick ::
  "('wc, stream_writer) mpsc \<Rightarrow> ('ec, u64 \<times> driver_event) mpsc \<Rightarrow> ('cc, u64 \<times> bool) mpsc \<Rightarrow>
   'wc php_engine \<Rightarrow> (u64 set \<Rightarrow> u64 list) \<Rightarrow> bool \<Rightarrow> ('ec, 'cc) tick_input list \<Rightarrow>
   ('ec, 'cc) server \<Rightarrow> 'wc store \<Rightarrow> (tick_status \<times> ('ec, 'cc) server \<times> 'wc store) option" where
  "tick wch ech cch pe ord has_efd [] sv s = Some (Looping, sv, s)"
| "tick wch ech cch pe ord has_efd (inp # inps) sv s =
     (let sv0 = sv\<lparr>sv_events := ti_events inp (sv_events sv),
                   sv_closes := ti_closes inp (sv_closes sv)\<rparr>
      in case select_event ech cch (ti_accept inp)
                (if has_efd then Some (ti_readable inp) else None) sv0 of
           None \<Rightarrow> tick wch ech cch pe ord has_efd inps sv0 s
         | Some (ev, sv1) \<Rightarrow>
             (case handle_event wch pe ord ev sv1 s of
                None \<Rightarrow> None
              | Some (leave, sv2, s2) \<Rightarrow>
                  if leave then Some (Exited, sv2, s2)
                  else tick wch ech cch pe ord has_efd inps sv2 s2))"

end
