(* ===== verification/Server_Callbacks.thy ===== *)
theory Server_Callbacks
  imports Server
begin

text \<open>
  What PHP sees of the server's operations: every \<open>on_close\<close> slot is fired at most once,
  a closed connection fires the slots of all its streams, and which programs may run inside a
  callback without blocking the loop. The facts about arbitrary PHP code come from the locale
  \<open>store_invariant\<close>, interpreted here on the invariants of the callback slots.
\<close>

subsection \<open>Fired slots\<close>

fun fired_slot :: "effect \<Rightarrow> addr option" where
  "fired_slot (CalledClose a cb flag) = Some a"
| "fired_slot _ = None"

definition fired :: "'wc store \<Rightarrow> addr list" where
  "fired s = List.map_filter fired_slot (st_trace s)"

lemma fired_simps [simp]:
  "fired (s\<lparr>st_slots := x\<rparr>) = fired s"
  "fired (s\<lparr>st_maps := y\<rparr>) = fired s"
  "fired (s\<lparr>st_chans := z\<rparr>) = fired s"
  "fired (register_stream m i s) = fired s"
  "fired (driver_does wch op s) = fired s"
  by (simp_all add: fired_def)

lemma fired_emit [simp]:
  "fired (emit e s) = fired s @ (case fired_slot e of None \<Rightarrow> [] | Some a \<Rightarrow> [a])"
  by (simp add: fired_def map_filter_def split: option.split)

text \<open>
  \<open>slots_inv P s\<close>: the \<open>on_close\<close> slots in the callback maps are allocated, belong to one
  stream each, and have not been fired; no slot was fired twice. \<open>P\<close> are slots that were taken
  out of a map and wait to be fired.
\<close>

definition slots_inv :: "addr set \<Rightarrow> 'wc store \<Rightarrow> bool" where
  "slots_inv P s \<longleftrightarrow>
     (\<forall>m i sl. st_maps s m i = Some sl \<longrightarrow>
        ss_on_close sl < st_next s \<and> ss_on_close sl \<notin> P \<and> ss_on_close sl \<notin> set (fired s)) \<and>
     (\<forall>m i sl n j sl'. st_maps s m i = Some sl \<longrightarrow> st_maps s n j = Some sl' \<longrightarrow>
        ss_on_close sl = ss_on_close sl' \<longrightarrow> m = n \<and> i = j) \<and>
     P \<subseteq> {..<st_next s} \<and> set (fired s) \<subseteq> {..<st_next s} \<and> P \<inter> set (fired s) = {} \<and>
     distinct (fired s)"

lemma slots_inv_same:
  assumes "slots_inv P s" "st_maps s' = st_maps s" "st_next s' = st_next s" "fired s' = fired s"
  shows "slots_inv P s'"
  using assms by (simp add: slots_inv_def)

lemma slots_invD:
  assumes "slots_inv P s"
  shows "st_maps s m i = Some sl \<Longrightarrow>
      ss_on_close sl < st_next s \<and> ss_on_close sl \<notin> P \<and> ss_on_close sl \<notin> set (fired s)"
    "st_maps s m i = Some sl \<Longrightarrow> st_maps s n j = Some sl' \<Longrightarrow>
      ss_on_close sl = ss_on_close sl' \<Longrightarrow> m = n \<and> i = j"
    "a \<in> P \<Longrightarrow> a < st_next s" "a \<in> set (fired s) \<Longrightarrow> a < st_next s"
    "P \<inter> set (fired s) = {}" "distinct (fired s)"
  using assms unfolding slots_inv_def by blast+

lemma slots_inv_shrink:
  assumes "slots_inv P s" "fired s' = fired s" "st_next s \<le> st_next s'"
    and "\<And>m. st_maps s' m \<subseteq>\<^sub>m st_maps s m"
  shows "slots_inv P s'"
proof -
  note D = slots_invD [OF assms(1)]
  have old: "st_maps s m i = Some sl" if "st_maps s' m i = Some sl" for m i sl
    using assms(4) [of m] that by (metis domI map_le_def)
  have "ss_on_close sl < st_next s' \<and> ss_on_close sl \<notin> P \<and> ss_on_close sl \<notin> set (fired s')"
    if "st_maps s' m i = Some sl" for m i sl
    using D(1) [OF old [OF that]] assms(2,3) by auto
  moreover have "m = n \<and> i = j"
    if "st_maps s' m i = Some sl" "st_maps s' n j = Some sl'" "ss_on_close sl = ss_on_close sl'"
    for m i sl n j sl'
    using D(2) [OF old [OF that(1)] old [OF that(2)] that(3)] .
  moreover have "P \<subseteq> {..<st_next s'}" "set (fired s') \<subseteq> {..<st_next s'}"
    using D(3,4) assms(2,3) by (auto intro: less_le_trans)
  ultimately show ?thesis
    using D(5,6) assms(2) unfolding slots_inv_def by simp
qed

lemma slots_inv_register:
  assumes "slots_inv P s"
  shows "slots_inv P (register_stream m i s)"
proof -
  let ?s = "register_stream m i s" and ?new = "Suc (st_next s)"
  note D = slots_invD [OF assms]
  have split: "n = m \<and> j = i \<and> ss_on_close sl = ?new \<or> \<not> (n = m \<and> j = i) \<and> st_maps s n j = Some sl"
    if "st_maps ?s n j = Some sl" for n j sl
    using that by (auto split: if_splits)
  have fresh: "?new \<notin> P" "?new \<notin> set (fired s)"
    using D(3,4) [of ?new] by auto
  have old: "ss_on_close sl < st_next s" if "st_maps s n j = Some sl" for n j sl
    using D(1) [OF that] by blast
  have "ss_on_close sl < st_next ?s \<and> ss_on_close sl \<notin> P \<and> ss_on_close sl \<notin> set (fired ?s)"
    if "st_maps ?s n j = Some sl" for n j sl
    using split [OF that] fresh D(1) [of n j sl] by auto
  moreover have "n = n' \<and> j = j'"
    if "st_maps ?s n j = Some sl" "st_maps ?s n' j' = Some sl'" "ss_on_close sl = ss_on_close sl'"
    for n j sl n' j' sl'
    using split [OF that(1)] split [OF that(2)] that(3) D(2) [of n j sl n' j' sl']
      old [of n j sl] old [of n' j' sl'] by auto
  moreover have "P \<subseteq> {..<st_next ?s}" "set (fired ?s) \<subseteq> {..<st_next ?s}"
    using D(3,4) by (auto intro: less_SucI)
  ultimately show ?thesis
    using D(5,6) unfolding slots_inv_def by (simp del: register_stream_simps(2))
qed

interpretation slots: store_invariant wch callable "slots_inv P"
  for wch :: "('wc, stream_writer) mpsc" and callable P
  by unfold_locales (auto intro: slots_inv_register elim: slots_inv_same)

lemma slots_inv_fire:
  assumes "slots_inv (insert a P) s" "a \<notin> P"
  shows "slots_inv P (emit (CalledClose a cb flag) s)"
  using assms unfolding slots_inv_def by auto

lemma slots_inv_skip: "slots_inv (insert a P) s \<Longrightarrow> slots_inv P s"
  unfolding slots_inv_def by auto

lemma fire_on_close_slots_inv:
  assumes "fire_on_close wch pe flag a held s = Some s'" "slots_inv (insert a P) s" "a \<notin> P"
  shows "slots_inv P s'"
proof (cases "\<exists>cb. st_slots s a = Some cb \<and> pe_callable pe cb")
  case True
  then obtain cb where cb: "st_slots s a = Some cb" "pe_callable pe cb" by blast
  let ?s = "emit (CalledClose a cb flag) s"
  have "run_prog wch pe (pe_script pe ?s cb [PhpBool flag]) (insert (SlotMutex a) held) ?s = Some s'"
    using assms(1) cb by (simp add: step_simps)
  then show ?thesis
    using slots.run_prog_inv [OF refl] slots_inv_fire [OF assms(2,3)] by blast
next
  case False
  then have "s' = s"
    using assms(1) by (auto simp: step_simps split: option.splits if_splits)
  with assms(2) show ?thesis by (simp add: slots_inv_skip)
qed

lemma fire_all_slots_inv:
  assumes "fire_all wch pe flag as held s = Some s'" "slots_inv (set as \<union> P) s"
    "distinct as" "set as \<inter> P = {}"
  shows "slots_inv P s'"
  using assms
proof (induction as arbitrary: s)
  case Nil
  then show ?case by simp
next
  case (Cons a as)
  then obtain s1 where s1: "fire_on_close wch pe flag a held s = Some s1"
    "fire_all wch pe flag as held s1 = Some s'"
    by (auto split: option.splits)
  have "slots_inv (set as \<union> P) s1"
    using fire_on_close_slots_inv [OF s1(1)] Cons.prems by simp
  with Cons s1(2) show ?case by auto
qed

lemma map_filter_in_dom: "set ks \<subseteq> dom m \<Longrightarrow> List.map_filter m ks = map (\<lambda>k. the (m k)) ks"
  by (induction ks) (auto simp: map_filter_simps)

lemma set_close_slots:
  assumes "hash_order ord" "finite (dom m)"
  shows "set (close_slots ord m) = ss_on_close ` ran m"
  using hash_orderD [OF assms]
  by (force simp: close_slots_def map_filter_in_dom ran_def dom_def image_def)

lemma distinct_close_slots:
  assumes "slots_inv P s" "hash_order ord" "finite (dom (st_maps s m))"
  shows "distinct (close_slots ord (st_maps s m))"
  using hash_orderD [OF assms(2,3)] assms(1)
  by (auto simp: close_slots_def map_filter_in_dom distinct_map inj_on_def slots_inv_def dom_def)

lemma slots_inv_drain:
  assumes "slots_inv {} s" "hash_order ord" "finite (dom (st_maps s m))"
  shows "slots_inv (set (close_slots ord (st_maps s m))) (s\<lparr>st_maps := (st_maps s)(m := Map.empty)\<rparr>)"
  using assms(1) unfolding set_close_slots [OF assms(2,3)] slots_inv_def
  by (auto simp: ran_def)

lemma drain_callbacks_slots_inv:
  assumes "drain_callbacks wch pe ord flag m s = Some s'" "slots_inv {} s"
    "hash_order ord" "finite (dom (st_maps s m))"
  shows "slots_inv {} s'"
  using assms fire_all_slots_inv [of wch pe flag "close_slots ord (st_maps s m)"
      "{MapMutex m}" "s\<lparr>st_maps := (st_maps s)(m := Map.empty)\<rparr>" s' "{}"]
    distinct_close_slots [OF assms(2-4)] slots_inv_drain [OF assms(2-4)]
  by (simp add: drain_callbacks_def)

text \<open>Every callback map is finite.\<close>

definition maps_finite :: "'wc store \<Rightarrow> bool" where
  "maps_finite s \<longleftrightarrow> (\<forall>m. finite (dom (st_maps s m)))"

interpretation finite_maps: store_invariant wch callable maps_finite
  for wch :: "('wc, stream_writer) mpsc" and callable
  by unfold_locales (auto simp: maps_finite_def)

lemma maps_finite_frame [simp]:
  "maps_finite (emit e s) = maps_finite s"
  "maps_finite (s\<lparr>st_chans := ch\<rparr>) = maps_finite s"
  "maps_finite (s\<lparr>st_slots := sl\<rparr>) = maps_finite s"
  by (simp_all add: maps_finite_def)

subsection \<open>Invariants that firing keeps\<close>

text \<open>
  The server's own steps on the store: besides running PHP code it records that an
  \<open>on_close\<close> slot was called and takes entries out of callback maps.
\<close>

locale callback_invariant = store_invariant +
  assumes inv_called_close: "inv s \<Longrightarrow> inv (emit (CalledClose a z flag) s)"
    and inv_remove: "inv s \<Longrightarrow> m' \<subseteq>\<^sub>m st_maps s m \<Longrightarrow> inv (s\<lparr>st_maps := (st_maps s)(m := m')\<rparr>)"
begin

lemma fire_on_close_inv:
  assumes "pe_callable pe = callable" "fire_on_close wch pe flag a held s = Some s'" "inv s"
  shows "inv s'"
proof (cases "\<exists>cb. st_slots s a = Some cb \<and> pe_callable pe cb")
  case True
  then obtain cb where "st_slots s a = Some cb" "pe_callable pe cb" by blast
  then show ?thesis
    using assms(2) run_prog_inv [OF assms(1)] inv_called_close [OF assms(3)]
    by (simp add: step_simps) blast
next
  case False
  then have "s' = s"
    using assms(2) by (auto simp: step_simps split: option.splits if_splits)
  with assms(3) show ?thesis by simp
qed

lemma fire_all_inv:
  assumes "pe_callable pe = callable" "fire_all wch pe flag as held s = Some s'" "inv s"
  shows "inv s'"
  using assms(2,3)
  by (induction as arbitrary: s) (auto split: option.splits dest: fire_on_close_inv [OF assms(1)])

lemma drain_callbacks_inv:
  assumes "pe_callable pe = callable" "drain_callbacks wch pe ord flag m s = Some s'" "inv s"
  shows "inv s'"
proof -
  have "inv (s\<lparr>st_maps := (st_maps s)(m := Map.empty)\<rparr>)"
    using assms(3) by (intro inv_remove) auto
  with assms(2) show ?thesis
    using fire_all_inv [OF assms(1)] by (simp add: drain_callbacks_def)
qed

end

interpretation finite_maps: callback_invariant wch callable maps_finite
  for wch :: "('wc, stream_writer) mpsc" and callable
proof unfold_locales
  show "maps_finite (s\<lparr>st_maps := (st_maps s)(m := m')\<rparr>)"
    if "maps_finite s" "m' \<subseteq>\<^sub>m st_maps s m" for s :: "'wc store" and m' m
    using that finite_subset [OF map_le_implies_dom_le [OF that(2)]] by (auto simp: maps_finite_def)
qed (simp add: maps_finite_def)

subsection \<open>Invariants of the whole server\<close>

text \<open>
  The contract of an invariant of the store under the server loop: PHP code keeps it, a new
  connection keeps it, and the two places that take streams out of a map and fire their
  \<open>on_close\<close> keep it. Then every pass of \<open>tick\<close> and \<open>close\<close> keep it.
\<close>

locale server_invariant = store_invariant +
  assumes inv_build:
      "inv s \<Longrightarrow> build wch cid peer s = ((st, drv), s') \<Longrightarrow> inv (emit (Started drv) s')"
    and inv_drain:
      "inv s \<Longrightarrow> pe_callable pe = callable \<Longrightarrow> hash_order ord \<Longrightarrow>
         drain_callbacks wch pe ord flag m s = Some s' \<Longrightarrow> inv s'"
    and inv_take:
      "inv s \<Longrightarrow> pe_callable pe = callable \<Longrightarrow> st_maps s m i = Some sl \<Longrightarrow>
         fire_on_close wch pe flag (ss_on_close sl) {}
           (s\<lparr>st_maps := (st_maps s)(m := (st_maps s m)(i := None))\<rparr>) = Some s' \<Longrightarrow> inv s'"
begin

lemma call_stream_callback_inv:
  assumes "pe_callable pe = callable" "call_stream_callback wch pe cb obj held s = Some s'" "inv s"
  shows "inv s'"
proof (cases "\<exists>z. cb = Some z \<and> pe_callable pe z")
  case True
  then show ?thesis
    using assms(2) run_prog_inv [OF assms(1)] inv_called_stream [OF assms(3)]
    by (auto simp: step_simps simp del: run_prog.simps)
next
  case False
  with assms(2,3) show ?thesis
    by (auto simp: step_simps split: option.splits if_splits)
qed

lemma call_on_data_inv:
  assumes "pe_callable pe = callable" "call_on_data wch pe slot data fin held s = Some s'" "inv s"
  shows "inv s'"
proof (cases "\<exists>z. st_slots s slot = Some z \<and> pe_callable pe z")
  case True
  then show ?thesis
    using assms(2) run_prog_inv [OF assms(1)] inv_called_data [OF assms(3)]
    by (auto simp: step_simps)
next
  case False
  with assms(2,3) show ?thesis
    by (auto simp: step_simps split: option.splits if_splits)
qed

lemma dispatch_new_stream_eq:
  "dispatch_new_stream wch pe incoming i state sv s =
     call_stream_callback wch pe (sv_stream_callback sv)
       (incoming (st_next s) (Suc (st_next s))) {} (register_stream (cs_callbacks state) i s)"
  by (simp add: dispatch_new_stream_def make_slot_pair_def register_stream_def Let_def)

lemma dispatch_data_inv:
  assumes "pe_callable pe = callable" "dispatch_data wch pe i data fin state s = Some s'" "inv s"
  shows "inv s'"
proof -
  let ?m = "cs_callbacks state"
  obtain s1 where s1: "(case map_option ss_on_data (st_maps s ?m i) of
      Some slot \<Rightarrow> call_on_data wch pe slot data fin {} s | None \<Rightarrow> Some s) = Some s1"
    and rest: "(if fin then
        (case st_maps s1 ?m i of
           Some sl \<Rightarrow> fire_on_close wch pe True (ss_on_close sl) {}
             (s1\<lparr>st_maps := (st_maps s1)(?m := (st_maps s1 ?m)(i := None))\<rparr>)
         | None \<Rightarrow> Some (s1\<lparr>st_maps := (st_maps s1)(?m := (st_maps s1 ?m)(i := None))\<rparr>))
      else Some s1) = Some s'"
    using assms(2) by (auto simp: dispatch_data_def bind_Some_iff split: if_splits)
  have "inv s1"
    using s1 call_on_data_inv [OF assms(1) _ assms(3)] assms(3) by (auto split: option.splits)
  moreover have "(st_maps s1)(?m := (st_maps s1 ?m)(i := None)) = st_maps s1"
    if "st_maps s1 ?m i = None"
    using that by (simp add: fun_upd_idem)
  ultimately show ?thesis
    using rest inv_take [OF _ assms(1)] by (auto split: if_splits option.splits)
qed

lemma dispatch_driver_event_inv:
  assumes "pe_callable pe = callable" "dispatch_driver_event wch pe cid ev sv s = Some s'" "inv s"
  shows "inv s'"
  using assms(2) call_stream_callback_inv [OF assms(1)] inv_register [OF assms(3)]
    dispatch_data_inv [OF assms(1) _ assms(3)] assms(3)
  by (auto simp: dispatch_driver_event_def dispatch_new_stream_eq
      split: option.splits driver_event.splits)

lemma conn_closed_inv:
  assumes "pe_callable pe = callable" "hash_order ord"
    and "conn_closed wch pe ord cid flag sv s = Some (sv', s')" "inv s"
  shows "inv s'"
  using assms(3) inv_drain [OF assms(4,1,2)] assms(4)
  by (auto simp: conn_closed_def split: option.splits)

lemma close_connections_inv:
  assumes "pe_callable pe = callable" "\<And>m. hash_order (mord m)"
    and "close_connections wch pe mord states s = Some s'" "inv s"
  shows "inv s'"
  using assms(3,4)
  by (induction states arbitrary: s) (auto split: option.splits dest: inv_drain [OF _ assms(1,2)])

lemma server_close_inv:
  assumes "pe_callable pe = callable" "\<And>m. hash_order (mord m)"
    and "server_close wch pe cord mord sv s = Some (sv', s')" "inv s"
  shows "inv s'"
  using assms(3) close_connections_inv [OF assms(1,2) _ assms(4)]
  by (auto simp: server_close_def split: option.splits)

lemma handle_event_inv:
  assumes "pe_callable pe = callable" "hash_order ord"
    and "handle_event wch pe ord ev sv s = Some (leave, sv', s')" "inv s"
  shows "inv s'"
  using assms(3,4) conn_closed_inv [OF assms(1,2) _ assms(4)]
    dispatch_driver_event_inv [OF assms(1) _ assms(4)]
  by (auto simp: handle_event_def accept_connection_def Let_def
      split: tick_event.splits sum.splits prod.splits intro: inv_build)

lemma tick_inv:
  assumes "pe_callable pe = callable" "hash_order ord"
    and "tick wch ech cch pe ord has_efd inps sv s = Some (status, sv', s')" "inv s"
  shows "inv s'"
  using assms(3,4)
proof (induction inps arbitrary: sv s)
  case Nil
  then show ?case by simp
next
  case (Cons inp inps)
  let ?sv = "sv\<lparr>sv_events := ti_events inp (sv_events sv),
    sv_closes := ti_closes inp (sv_closes sv)\<rparr>"
  let ?sel = "select_event ech cch (ti_accept inp)
    (if has_efd then Some (ti_readable inp) else None) ?sv"
  show ?case
  proof (cases ?sel)
    case None
    then show ?thesis using Cons by (simp add: Let_def)
  next
    case (Some evsv)
    obtain ev sv1 where evsv: "evsv = (ev, sv1)" by force
    obtain leave sv2 s2 where h: "handle_event wch pe ord ev sv1 s = Some (leave, sv2, s2)"
      using Cons.prems(1) Some evsv by (auto simp: Let_def split: option.splits)
    have "inv s2" using handle_event_inv [OF assms(1,2) h Cons.prems(2)] .
    then show ?thesis
      using Cons.IH [of sv2 s2] Cons.prems(1) Some evsv h by (simp add: Let_def split: if_splits)
  qed
qed

end

text \<open>
  An invariant that survives the server's own steps and new connections is one of the whole
  server.
\<close>

locale connection_invariant = callback_invariant +
  assumes inv_connect:
    "inv s \<Longrightarrow> build wch cid peer s = ((st, drv), s') \<Longrightarrow> inv (emit (Started drv) s')"

sublocale connection_invariant \<subseteq> server_invariant
proof unfold_locales
  fix s :: "'a store" and m i sl s' flag and pe :: "'a php_engine"
  assume "inv s" "pe_callable pe = callable" "st_maps s m i = Some sl"
    "fire_on_close wch pe flag (ss_on_close sl) {}
       (s\<lparr>st_maps := (st_maps s)(m := (st_maps s m)(i := None))\<rparr>) = Some s'"
  then show "inv s'"
    using fire_on_close_inv inv_remove [of s "(st_maps s m)(i := None)" m] by (auto simp: map_le_def)
qed (auto intro: inv_connect drain_callbacks_inv)

text \<open>No slot is fired twice, whatever the PHP code does.\<close>

definition callbacks_ok :: "'wc store \<Rightarrow> bool" where
  "callbacks_ok s \<longleftrightarrow> slots_inv {} s \<and> maps_finite s"

interpretation callbacks: server_invariant wch callable callbacks_ok
  for wch :: "('wc, stream_writer) mpsc" and callable
proof unfold_locales
  fix s :: "'wc store" and cid peer st drv s'
  assume "callbacks_ok s" "build wch cid peer s = ((st, drv), s')"
  note a = this(1) and b = build_simps [OF this(2)]
  have "slots_inv {} s'" "maps_finite s'"
    using a b by (auto simp: callbacks_ok_def maps_finite_def fired_def map_le_def
        intro: slots_inv_shrink [of "{}" s])
  then show "callbacks_ok (emit (Started drv) s')"
    by (auto simp: callbacks_ok_def elim: slots_inv_same)
next
  fix s :: "'wc store" and pe ord flag m s'
  assume a: "callbacks_ok s" "pe_callable pe = callable" "hash_order ord"
    "drain_callbacks wch pe ord flag m s = Some s'"
  then show "callbacks_ok s'"
    using drain_callbacks_slots_inv [OF a(4)] finite_maps.drain_callbacks_inv [OF a(2,4)]
    by (auto simp: callbacks_ok_def maps_finite_def)
next
  fix s :: "'wc store" and pe m i sl flag s'
  let ?s = "s\<lparr>st_maps := (st_maps s)(m := (st_maps s m)(i := None))\<rparr>"
  assume a: "callbacks_ok s" "pe_callable pe = callable" "st_maps s m i = Some sl"
    "fire_on_close wch pe flag (ss_on_close sl) {} ?s = Some s'"
  have "slots_inv (insert (ss_on_close sl) {}) ?s"
    using a(1,3) by (auto simp: callbacks_ok_def slots_inv_def split: if_splits)
  moreover have "maps_finite ?s"
    using a(1) by (auto simp: callbacks_ok_def maps_finite_def)
  ultimately show "callbacks_ok s'"
    using fire_on_close_slots_inv [OF a(4)] finite_maps.fire_on_close_inv [OF a(2,4)]
    by (simp add: callbacks_ok_def)
qed (auto simp: callbacks_ok_def intro: slots.inv_install slots.inv_register slots.inv_queue
    slots.inv_driver slots.inv_called_stream slots.inv_called_data finite_maps.inv_install
    finite_maps.inv_register finite_maps.inv_queue finite_maps.inv_driver)

end
