(* ===== verification/Server_Loop.thy ===== *)
theory Server_Loop
  imports Server_Callbacks "HOL-Library.Sublist"
begin

text \<open>
  What the server's operations do on each branch: which callables a closed connection, a data
  chunk and a FIN call, in which order \<open>tick\<close> takes its events, when it is left, and when a
  PHP callback blocks the loop for ever.
\<close>

subsection \<open>Installed callbacks stay installed\<close>

text \<open>
  \<open>installed callable a s\<close>: slot \<open>a\<close> holds a value, and every slot that holds a value holds
  a callable one, as \<open>install_slot\<close> ensures.
\<close>

definition slots_callable :: "(zval \<Rightarrow> bool) \<Rightarrow> 'wc store \<Rightarrow> bool" where
  "slots_callable callable s \<longleftrightarrow> (\<forall>a cb. st_slots s a = Some cb \<longrightarrow> callable cb)"

definition installed :: "(zval \<Rightarrow> bool) \<Rightarrow> addr \<Rightarrow> 'wc store \<Rightarrow> bool" where
  "installed callable a s \<longleftrightarrow>
     slots_callable callable s \<and> a < st_next s \<and> st_slots s a \<noteq> None"

interpretation installed: callback_invariant wch callable "installed callable a"
  for wch :: "('wc, stream_writer) mpsc" and callable a
  by unfold_locales (auto simp: installed_def slots_callable_def split: if_splits)

interpretation happened: callback_invariant wch callable "\<lambda>s. e \<in> set (st_trace s)"
  for wch :: "('wc, stream_writer) mpsc" and callable e
  by unfold_locales auto

definition fires :: "bool \<Rightarrow> addr \<Rightarrow> 'wc store \<Rightarrow> bool" where
  "fires flag a s \<longleftrightarrow> (\<exists>cb. CalledClose a cb flag \<in> set (st_trace s))"

lemma fire_on_close_fires:
  assumes "fire_on_close wch pe flag a held s = Some s'" "installed (pe_callable pe) a s"
  shows "fires flag a s'"
proof -
  obtain cb where cb: "st_slots s a = Some cb" "pe_callable pe cb"
    using assms(2) by (auto simp: installed_def slots_callable_def)
  let ?s = "emit (CalledClose a cb flag) s"
  have "run_prog wch pe (pe_script pe ?s cb [PhpBool flag]) (insert (SlotMutex a) held) ?s = Some s'"
    using assms(1) cb by (simp add: step_simps)
  then have "CalledClose a cb flag \<in> set (st_trace s')"
    using happened.run_prog_inv [OF refl] by (metis emit_simps(5) in_set_conv_decomp)
  then show ?thesis by (auto simp: fires_def)
qed

lemma fire_all_fires:
  assumes "fire_all wch pe flag as held s = Some s'" "a \<in> set as"
    "installed (pe_callable pe) a s"
  shows "fires flag a s'"
  using assms
proof (induction as arbitrary: s)
  case Nil
  then show ?case by simp
next
  case (Cons b as)
  then obtain s1 where s1: "fire_on_close wch pe flag b held s = Some s1"
    "fire_all wch pe flag as held s1 = Some s'"
    by (auto split: option.splits)
  show ?case
  proof (cases "a = b")
    case True
    then obtain cb where "CalledClose a cb flag \<in> set (st_trace s1)"
      using fire_on_close_fires [OF s1(1)] Cons.prems(3) by (auto simp: fires_def)
    then have "CalledClose a cb flag \<in> set (st_trace s')"
      using happened.fire_all_inv [OF refl s1(2)] by blast
    then show ?thesis by (auto simp: fires_def)
  next
    case False
    then show ?thesis
      using Cons.IH [OF s1(2)] Cons.prems installed.fire_on_close_inv [OF refl s1(1)] by auto
  qed
qed

lemma drain_callbacks_fires:
  assumes "drain_callbacks wch pe ord flag m s = Some s'" "hash_order ord" "maps_finite s"
    and "st_maps s m i = Some sl" "installed (pe_callable pe) (ss_on_close sl) s"
  shows "fires flag (ss_on_close sl) s'"
proof -
  have "ss_on_close sl \<in> set (close_slots ord (st_maps s m))"
    using assms(2-4) set_close_slots [of ord "st_maps s m"]
    by (auto simp: maps_finite_def intro: ranI)
  then show ?thesis
    using assms(1,5) fire_all_fires [of wch pe flag "close_slots ord (st_maps s m)" "{MapMutex m}"]
    by (auto simp: drain_callbacks_def installed_def slots_callable_def)
qed

subsection \<open>Which slots are fired\<close>

text \<open>PHP code itself fires no slot; only \<open>fire_on_close\<close> does.\<close>

interpretation fires_none: store_invariant wch callable "\<lambda>s. fired s = as"
  for wch :: "('wc, stream_writer) mpsc" and callable as
  by unfold_locales auto

lemma fire_on_close_fired:
  assumes "fire_on_close wch pe flag a held s = Some s'"
  obtains (called) cb where "st_slots s a = Some cb" "pe_callable pe cb"
      "fired s' = fired s @ [a]" "fires flag a s'"
  | (nothing) "s' = s" "\<And>cb. st_slots s a = Some cb \<Longrightarrow> \<not> pe_callable pe cb"
proof (cases "\<exists>cb. st_slots s a = Some cb \<and> pe_callable pe cb")
  case True
  then obtain cb where cb: "st_slots s a = Some cb" "pe_callable pe cb" by blast
  let ?s = "emit (CalledClose a cb flag) s"
  have run: "run_prog wch pe (pe_script pe ?s cb [PhpBool flag]) (insert (SlotMutex a) held) ?s =
      Some s'"
    using assms cb by (simp add: step_simps)
  have "fired s' = fired s @ [a]"
    using fires_none.run_prog_inv [OF refl run] by simp
  moreover have "CalledClose a cb flag \<in> set (st_trace s')"
    using happened.run_prog_inv [OF refl run] by simp
  ultimately show thesis using called cb by (auto simp: fires_def)
next
  case False
  then have "s' = s"
    using assms by (auto simp: step_simps split: option.splits if_splits)
  then show thesis by (rule nothing) (use False in blast)
qed

lemma fires_later:
  assumes "fire_all wch pe flag' as held s = Some s'" "fires flag a s"
  shows "fires flag a s'"
  using happened.fire_all_inv [OF refl assms(1)] assms(2) unfolding fires_def by blast

lemma fire_all_fired:
  assumes "fire_all wch pe flag as held s = Some s'"
  shows "\<exists>bs. subseq bs as \<and> fired s' = fired s @ bs \<and> (\<forall>a \<in> set bs. fires flag a s')"
  using assms
proof (induction as arbitrary: s)
  case Nil
  then show ?case by simp
next
  case (Cons a as)
  then obtain s1 where s1: "fire_on_close wch pe flag a held s = Some s1"
    "fire_all wch pe flag as held s1 = Some s'"
    by (auto split: option.splits)
  then obtain bs where bs: "subseq bs as" "fired s' = fired s1 @ bs" "\<forall>b \<in> set bs. fires flag b s'"
    using Cons.IH by blast
  show ?case
    using s1(1)
  proof (cases rule: fire_on_close_fired)
    case (called cb)
    then have "fires flag a s'" using fires_later [OF s1(2)] by blast
    then show ?thesis
      using bs called(3) by (intro exI [of _ "a # bs"]) auto
  next
    case nothing
    then show ?thesis using bs by (intro exI [of _ bs]) auto
  qed
qed

text \<open>Nobody touches a callback map whose lock the loop holds.\<close>

lemma fire_on_close_locked_map:
  assumes "fire_on_close wch pe flag a held s = Some s'" "MapMutex m \<in> held"
  shows "st_maps s' m = st_maps s m"
  using assms run_prog_locked
  by (fastforce simp: step_simps split: option.splits if_splits)

lemma fire_all_locked_map:
  assumes "fire_all wch pe flag as held s = Some s'" "MapMutex m \<in> held"
  shows "st_maps s' m = st_maps s m"
  using assms
  by (induction as arbitrary: s) (auto split: option.splits dest: fire_on_close_locked_map)

lemma drain_callbacks_empties:
  assumes "drain_callbacks wch pe ord flag m s = Some s'"
  shows "st_maps s' m = Map.empty"
  using assms fire_all_locked_map by (fastforce simp: drain_callbacks_def)

lemma drain_callbacks_fired:
  assumes "drain_callbacks wch pe ord flag m s = Some s'" "hash_order ord" "maps_finite s"
  shows "\<exists>bs. fired s' = fired s @ bs \<and> set bs \<subseteq> ss_on_close ` ran (st_maps s m) \<and>
     (\<forall>a \<in> set bs. fires flag a s')"
proof -
  obtain bs where "subseq bs (close_slots ord (st_maps s m))" "fired s' = fired s @ bs"
    "\<forall>a \<in> set bs. fires flag a s'"
    using assms(1) fire_all_fired [of wch pe flag "close_slots ord (st_maps s m)" "{MapMutex m}"]
    by (fastforce simp: drain_callbacks_def)
  moreover have "set (close_slots ord (st_maps s m)) = ss_on_close ` ran (st_maps s m)"
    using assms(2,3) by (intro set_close_slots) (auto simp: maps_finite_def)
  ultimately show ?thesis
    by (intro exI [of _ bs]) (auto elim: list_emb_set)
qed

subsection \<open>Programs that may run in a callback\<close>

text \<open>
  A callback runs with the lock of its own slot, and an \<open>on_close\<close> of a closing connection
  also with the lock of the connection's callback map. A program that keeps off these locks
  always hands control back.
\<close>

lemma fire_on_close_returns:
  assumes "SlotMutex a \<notin> held"
    and "\<And>s cb. prog_avoids (pe_callable pe) (insert (SlotMutex a) held)
           (pe_script pe (emit (CalledClose a cb flag) s) cb [PhpBool flag])"
  shows "\<exists>s'. fire_on_close wch pe flag a held s = Some s'"
  using assms(1) run_prog_returns [OF assms(2)]
  by (auto simp: fire_on_close_def Let_def split: option.split)

lemma fire_all_returns:
  assumes "\<And>a. a \<in> set as \<Longrightarrow> SlotMutex a \<notin> held"
    and "\<And>a s cb. a \<in> set as \<Longrightarrow>
           prog_avoids (pe_callable pe) (insert (SlotMutex a) held)
             (pe_script pe (emit (CalledClose a cb flag) s) cb [PhpBool flag])"
  shows "\<exists>s'. fire_all wch pe flag as held s = Some s'"
  using assms
proof (induction as arbitrary: s)
  case Nil
  then show ?case by simp
next
  case (Cons a as)
  obtain s1 where "fire_on_close wch pe flag a held s = Some s1"
    using fire_on_close_returns [of a held pe flag wch s] Cons.prems by auto
  with Cons show ?case by auto
qed

text \<open>
  \<open>close_safe pe M\<close>: an \<open>on_close\<close> callback keeps off its own slot and off the callback
  maps in \<open>M\<close>. \<open>data_safe pe\<close>: an \<open>on_data\<close> callback keeps off its own slot.
\<close>

definition close_safe :: "'wc php_engine \<Rightarrow> addr set \<Rightarrow> bool" where
  "close_safe pe M \<longleftrightarrow>
     (\<forall>s a cb flag. prog_avoids (pe_callable pe) (insert (SlotMutex a) (MapMutex ` M))
        (pe_script pe (emit (CalledClose a cb flag) s) cb [PhpBool flag]))"

definition data_safe :: "'wc php_engine \<Rightarrow> bool" where
  "data_safe pe \<longleftrightarrow>
     (\<forall>s a cb data fin. prog_avoids (pe_callable pe) {SlotMutex a}
        (pe_script pe (emit (CalledData a cb data fin) s) cb [PhpStr data, PhpBool fin]))"

lemma prog_avoids_mono: "prog_avoids callable held p \<Longrightarrow> held' \<subseteq> held \<Longrightarrow> prog_avoids callable held' p"
  by (induction p) auto

lemma close_safe_mono: "close_safe pe M \<Longrightarrow> M' \<subseteq> M \<Longrightarrow> close_safe pe M'"
  unfolding close_safe_def by (meson image_mono insert_mono prog_avoids_mono)

lemma close_safeD:
  "close_safe pe M \<Longrightarrow> held \<subseteq> insert (SlotMutex a) (MapMutex ` M) \<Longrightarrow>
     prog_avoids (pe_callable pe) held (pe_script pe (emit (CalledClose a cb flag) s) cb [PhpBool flag])"
  unfolding close_safe_def by (meson prog_avoids_mono)

lemma drain_callbacks_returns:
  assumes "close_safe pe {m}"
  shows "\<exists>s'. drain_callbacks wch pe ord flag m s = Some s'"
  using close_safeD [OF assms] by (auto simp: drain_callbacks_def intro!: fire_all_returns)

text \<open>No method takes the lock of the stream callback, so that callback never blocks.\<close>

lemma stream_callback_not_locked: "StreamCallbackMutex \<notin> op_locks callable op"
  by (cases op) (auto split: php_object.splits)

lemma call_stream_callback_returns: "\<exists>s'. call_stream_callback wch pe cb obj {} s = Some s'"
proof -
  have "prog_avoids (pe_callable pe) {StreamCallbackMutex} p" for p
    by (induction p) (auto simp: stream_callback_not_locked)
  then have "\<exists>s'. run_prog wch pe p {StreamCallbackMutex} s = Some s'" for p s
    by (rule run_prog_returns)
  then show ?thesis
    by (auto simp: call_stream_callback_def Let_def split: option.split)
qed

lemma call_on_data_returns: "data_safe pe \<Longrightarrow> \<exists>s'. call_on_data wch pe slot data fin {} s = Some s'"
  unfolding data_safe_def
  by (auto simp: call_on_data_def Let_def intro: run_prog_returns split: option.split)

lemma dispatch_data_eq:
  "dispatch_data wch pe i data fin state s =
     (case (case st_maps s (cs_callbacks state) i of
              Some sl \<Rightarrow> call_on_data wch pe (ss_on_data sl) data fin {} s
            | None \<Rightarrow> Some s) of
        None \<Rightarrow> None
      | Some s1 \<Rightarrow>
          (case (if fin then st_maps s1 (cs_callbacks state) i else None) of
             None \<Rightarrow> Some s1
           | Some sl \<Rightarrow> fire_on_close wch pe True (ss_on_close sl) {}
               (s1\<lparr>st_maps := (st_maps s1)
                  (cs_callbacks state := (st_maps s1 (cs_callbacks state))(i := None))\<rparr>)))"
proof -
  have "(st_maps s1)(m := (st_maps s1 m)(i := None)) = st_maps s1"
    if "st_maps s1 m i = None" for s1 :: "'a store" and m
    using that by (simp add: fun_upd_idem)
  then show ?thesis
    by (auto simp: dispatch_data_def split: option.split)
qed

lemma dispatch_driver_event_returns:
  assumes "data_safe pe" "close_safe pe {}"
  shows "\<exists>s'. dispatch_driver_event wch pe cid ev sv s = Some s'"
proof -
  have "fire_on_close wch pe flag a {} s \<noteq> None" for flag a s
    using fire_on_close_returns [of a "{}" pe flag wch s] close_safeD [OF assms(2)] by auto
  moreover have "call_on_data wch pe slot data fin {} s \<noteq> None" for slot data fin s
    using call_on_data_returns [OF assms(1), of wch slot data fin s] by auto
  ultimately have "dispatch_data wch pe i data fin state s \<noteq> None" for i data fin state s
    unfolding dispatch_data_eq by (simp split: option.split)
  then show ?thesis
    using call_stream_callback_returns
    by (auto simp: dispatch_driver_event_def dispatch_new_stream_def make_slot_pair_def Let_def
        split: option.split driver_event.split)
qed

lemma handle_event_returns:
  assumes "data_safe pe" "close_safe pe UNIV"
  shows "\<exists>r. handle_event wch pe ord ev sv s = Some r"
proof -
  have safe: "close_safe pe M" for M using close_safe_mono [OF assms(2)] by simp
  have "drain_callbacks wch pe ord flag m s \<noteq> None" for flag m
    using drain_callbacks_returns [OF safe, of wch ord flag m s] by auto
  then have "\<exists>r. conn_closed wch pe ord cid flag sv s = Some r" for cid flag
    by (auto simp: conn_closed_def simp del: not_None_eq split: option.split)
  then show ?thesis
    using dispatch_driver_event_returns [OF assms(1) safe]
    by (auto simp: handle_event_def split: tick_event.split sum.split prod.split)
qed

text \<open>A callback whose first step needs a lock that is held never returns.\<close>

lemma run_prog_blocks:
  "op_locks (pe_callable pe) op \<inter> held \<noteq> {} \<Longrightarrow> run_prog wch pe (Call op k) held s = None"
  using php_call_None_iff [of wch pe op held s] by simp

lemma call_on_data_blocks:
  assumes "st_slots s slot = Some cb" "pe_callable pe cb"
    and "pe_script pe (emit (CalledData slot cb data fin) s) cb [PhpStr data, PhpBool fin] = Call op k"
    and "SlotMutex slot \<in> op_locks (pe_callable pe) op"
  shows "call_on_data wch pe slot data fin {} s = None"
  using assms run_prog_blocks [of pe op "{SlotMutex slot}" wch k]
  by (auto simp: call_on_data_def with_lock_def Let_def)

text \<open>
  An \<open>on_close\<close> callback that comes to a lock the loop holds stops the loop, wherever its
  slot stands among the slots to be fired, when no other callback replaces it first.
\<close>

lemma fire_all_hangs:
  assumes "\<And>s. prog_needs (pe_callable pe) m (pe_script pe s cb [PhpBool flag])" "m \<in> held"
    and "pe_callable pe cb"
    and "\<And>s cb'. cb' \<noteq> cb \<Longrightarrow>
           prog_avoids (pe_callable pe) {SlotMutex a} (pe_script pe s cb' [PhpBool flag])"
    and "a \<in> set as" "st_slots s a = Some cb" "a < st_next s"
  shows "fire_all wch pe flag as held s = None"
  using assms(5-7)
proof (induction as arbitrary: s)
  case Nil
  then show ?case by simp
next
  case (Cons b as)
  have hangs: "fire_on_close wch pe flag b held s = None" if "st_slots s b = Some cb"
    using that assms(3) run_prog_hangs [OF assms(1) insertI2 [OF assms(2)]]
    by (simp add: fire_on_close_def with_lock_def Let_def)
  show ?case
  proof (cases "fire_on_close wch pe flag b held s")
    case None
    then show ?thesis by simp
  next
    case (Some s1)
    then have "b \<noteq> a" using hangs Cons.prems(2) by auto
    have "st_slots s1 a = Some cb \<and> a < st_next s1"
    proof (cases "\<exists>cb'. st_slots s b = Some cb' \<and> pe_callable pe cb'")
      case True
      then obtain cb' where cb': "st_slots s b = Some cb'" "pe_callable pe cb'" by blast
      let ?s = "emit (CalledClose b cb' flag) s"
      have run: "run_prog wch pe (pe_script pe ?s cb' [PhpBool flag]) (insert (SlotMutex b) held)
          ?s = Some s1"
        using Some cb' by (simp add: step_simps)
      have "cb' \<noteq> cb" using hangs Some cb'(1) by auto
      then show ?thesis
        using run_prog_frame(2) [OF assms(4) [OF \<open>cb' \<noteq> cb\<close>] run, of a] run_prog_locked [OF run]
          Cons.prems(2,3) by fastforce
    next
      case False
      then have "s1 = s" using Some by (auto simp: step_simps split: option.splits if_splits)
      then show ?thesis using Cons.prems by simp
    qed
    then show ?thesis using Some Cons.IH Cons.prems(1) \<open>b \<noteq> a\<close> by simp
  qed
qed

subsection \<open>Which arm the select takes\<close>

locale server_channels =
  ev: mpsc_fifo ech ev_items ev_room ev_live + cl: mpsc_fifo cch cl_items cl_room cl_live
  for ech :: "('ec, u64 \<times> driver_event) mpsc" and ev_items ev_room ev_live
    and cch :: "('cc, u64 \<times> bool) mpsc" and cl_items cl_room cl_live
begin

lemma select_event_cases:
  assumes "ev_live (sv_events sv)" "cl_live (sv_closes sv)"
  obtains (driver) cid ev c where "ev_items (sv_events sv) = (cid, ev) # ev_items c" "ev_live c"
      "ev_room c = Suc (ev_room (sv_events sv))"
      "select_event ech cch accept efd sv = Some (DriverEv cid ev, sv\<lparr>sv_events := c\<rparr>)"
  | (close) cid flag c where "ev_items (sv_events sv) = []"
      "cl_items (sv_closes sv) = (cid, flag) # cl_items c" "cl_live c"
      "select_event ech cch accept efd sv = Some (ConnClosed cid flag, sv\<lparr>sv_closes := c\<rparr>)"
  | (accept) r where "ev_items (sv_events sv) = []" "cl_items (sv_closes sv) = []"
      "sv_listening sv" "accept = Some r"
      "select_event ech cch accept efd sv = Some (NewConn r, sv)"
  | (timer) "ev_items (sv_events sv) = []" "cl_items (sv_closes sv) = []"
      "\<not> sv_listening sv \<or> accept = None" "efd = Some True"
      "select_event ech cch accept efd sv = Some (TimerFired, sv)"
  | (idle) "ev_items (sv_events sv) = []" "cl_items (sv_closes sv) = []"
      "\<not> sv_listening sv \<or> accept = None" "efd \<noteq> Some True"
      "select_event ech cch accept efd sv = None"
proof (cases rule: ev.try_recv_cases [OF assms(1)])
  case (1 m c')
  then show thesis
    by (cases m) (auto intro: driver simp: select_event_def)
next
  case (2 e)
  note ev_empty = this
  show thesis
  proof (cases rule: cl.try_recv_cases [OF assms(2)])
    case (1 m c')
    then show thesis
      using ev_empty by (cases m) (auto intro: close simp: select_event_def)
  next
    case (2 e')
    then show thesis
      using ev_empty accept timer idle
      by (cases "if sv_listening sv then accept else None"; cases "efd = Some True")
        (auto simp: select_event_def split: if_splits)
  qed
qed

end

interpretation ref_server: server_channels fifo_mpsc fifo_items fifo_room fifo_live
    fifo_mpsc fifo_items fifo_room fifo_live
  by unfold_locales

subsection \<open>Leaving the loop\<close>

lemma handle_event_leaves:
  "handle_event wch pe ord ev sv s = Some (True, sv', s') \<longleftrightarrow> ev = TimerFired \<and> sv' = sv \<and> s' = s"
  by (auto simp: handle_event_def split: tick_event.splits sum.splits prod.splits option.splits)

lemma select_event_timer:
  "select_event ech cch accept efd sv = Some (TimerFired, sv') \<Longrightarrow> efd = Some True"
  by (auto simp: select_event_def split: sum.splits option.splits if_splits prod.splits)

lemma tick_never_exits:
  "tick wch ech cch pe ord False inps sv s \<noteq> Some (Exited, sv', s')"
proof (induction inps arbitrary: sv s)
  case Nil
  then show ?case by simp
next
  case (Cons inp inps)
  then show ?case
    by (auto simp: Let_def handle_event_leaves dest!: select_event_timer split: option.splits)
qed

end
