(* ===== verification/Server_Correct.thy ===== *)
theory Server_Correct
  imports Server_Loop
begin

text \<open>
  The properties of the server loop of \<open>src/quiche/socket.rs\<close>: closing fires the callbacks
  of every stream, new streams and data reach PHP, \<open>tick\<close> takes its events in order and
  returns from every callback that keeps off the locks it runs under, and two patterns of PHP
  code that hang the loop for ever.
\<close>

subsection \<open>A concrete server\<close>

text \<open>
  One connection, number 7, with two streams: stream 0 has both callbacks installed
  (\<open>Zval 10\<close> and \<open>Zval 11\<close>), stream 4 has none. The stream callback is \<open>Zval 1\<close>.
\<close>

definition demo_state :: conn_state where
  "demo_state = \<lparr>cs_peer_addr = ''127.0.0.1:4000'', cs_callbacks = 2,
     cs_open_handle = example_handle\<rparr>"

definition demo_slots :: stream_slots where
  "demo_slots = \<lparr>ss_on_data = 3, ss_on_close = 4\<rparr>"

definition demo_server :: "((u64 \<times> driver_event) fifo, (u64 \<times> bool) fifo) server" where
  "demo_server =
     \<lparr>sv_listening = True, sv_connections = [7 \<mapsto> demo_state], sv_id_counter = 8,
      sv_stream_callback = Some (Zval 1),
      sv_events = mpsc_channel fifo_mpsc SERVER_EVENT_CHANNEL_CAPACITY,
      sv_closes = mpsc_channel fifo_mpsc CONN_CLOSE_CHANNEL_CAPACITY\<rparr>"

definition demo_store :: "stream_writer fifo store" where
  "demo_store =
     \<lparr>st_slots = [3 \<mapsto> Zval 10, 4 \<mapsto> Zval 11],
      st_maps = (\<lambda>_. Map.empty)
        (2 := [0 \<mapsto> demo_slots, 4 \<mapsto> \<lparr>ss_on_data = 5, ss_on_close = 6\<rparr>]),
      st_chans = (\<lambda>_. mpsc_channel fifo_mpsc WRITE_CHANNEL_CAPACITY), st_next = 7,
      st_trace = []\<rparr>"

lemma demo_store_ok: "callbacks_ok demo_store"
  by (auto simp: callbacks_ok_def slots_inv_def maps_finite_def demo_store_def demo_slots_def
      fired_def map_filter_simps split: if_splits)

lemma demo_installed: "installed (pe_callable example_engine) 4 demo_store"
  by (auto simp: installed_def slots_callable_def demo_store_def example_engine_def split: if_splits)

lemma example_engine_safe: "data_safe example_engine" "close_safe example_engine M"
  by (simp_all add: data_safe_def close_safe_def example_engine_def)

subsection \<open>Closing a connection\<close>

text \<open>C13: When a close message of a known connection has been handled, the connection and all its
  streams are gone, and the \<open>on_close\<close> callback of every stream that had one was called, with
  the flag of the message, exactly once: the slots called are distinct, belong to streams of
  this connection, and were never called before.\<close>

theorem conn_closed_notifies_every_stream:
  assumes "callbacks_ok s" "hash_order ord" "sv_connections sv cid = Some state"
    and "conn_closed wch pe ord cid flag sv s = Some (sv', s')"
  shows "sv' = sv\<lparr>sv_connections := (sv_connections sv)(cid := None)\<rparr> \<and>
     st_maps s' (cs_callbacks state) = Map.empty \<and>
     (\<exists>as. fired s' = fired s @ as \<and> distinct (fired s @ as) \<and>
        set as \<subseteq> ss_on_close ` ran (st_maps s (cs_callbacks state)) \<and>
        (\<forall>a \<in> set as. fires flag a s') \<and>
        (\<forall>sl \<in> ran (st_maps s (cs_callbacks state)).
           installed (pe_callable pe) (ss_on_close sl) s \<longrightarrow> fires flag (ss_on_close sl) s'))"
proof -
  have drain: "drain_callbacks wch pe ord flag (cs_callbacks state) s = Some s'"
    and sv': "sv' = sv\<lparr>sv_connections := (sv_connections sv)(cid := None)\<rparr>"
    using assms(3,4) by (auto simp: conn_closed_def split: option.splits)
  have fin: "maps_finite s" using assms(1) by (simp add: callbacks_ok_def)
  obtain as where as: "fired s' = fired s @ as"
    "set as \<subseteq> ss_on_close ` ran (st_maps s (cs_callbacks state))" "\<forall>a \<in> set as. fires flag a s'"
    using drain_callbacks_fired [OF drain assms(2) fin] by blast
  have "callbacks_ok s'"
    using callbacks.conn_closed_inv [OF refl assms(2,4,1)] .
  then have "distinct (fired s @ as)"
    using as(1) by (simp add: callbacks_ok_def slots_inv_def)
  moreover have "fires flag (ss_on_close sl) s'"
    if "sl \<in> ran (st_maps s (cs_callbacks state))" "installed (pe_callable pe) (ss_on_close sl) s" for sl
    using that drain_callbacks_fires [OF drain assms(2) fin] by (auto simp: ran_def)
  ultimately show ?thesis
    using as sv' drain_callbacks_empties [OF drain] by blast
qed

theorem conn_closed_notifies_every_stream_witness:
  "\<exists>sv' s'. conn_closed fifo_mpsc example_engine sorted_list_of_set 7 True demo_server demo_store =
       Some (sv', s') \<and> sv_connections sv' 7 = None \<and> st_maps s' 2 = Map.empty \<and>
     fires True 4 s'"
proof -
  have conn: "sv_connections demo_server 7 = Some demo_state" "cs_callbacks demo_state = 2"
    "demo_slots \<in> ran (st_maps demo_store 2)" "ss_on_close demo_slots = 4"
    by (auto simp: demo_server_def demo_state_def demo_store_def demo_slots_def ran_def)
  obtain sv' s' where run: "conn_closed fifo_mpsc example_engine sorted_list_of_set 7 True
      demo_server demo_store = Some (sv', s')"
    using handle_event_returns [OF example_engine_safe(1,2), of fifo_mpsc sorted_list_of_set
        "ConnClosed 7 True" demo_server demo_store]
    by (auto simp: handle_event_def)
  show ?thesis
    using conn_closed_notifies_every_stream [OF demo_store_ok hash_order_sorted conn(1) run]
      conn demo_installed run by auto
qed

subsection \<open>Closing the server\<close>

lemma run_prog_opens_nothing:
  assumes "prog_avoids (pe_callable pe) (range MapMutex) p" "run_prog wch pe p held s = Some s'"
  shows "st_maps s' = st_maps s"
  using run_prog_frame(1) [OF assms] by (intro ext) simp

lemma fire_on_close_opens_nothing:
  assumes "close_safe pe UNIV" "fire_on_close wch pe flag a held s = Some s'"
  shows "st_maps s' = st_maps s"
proof -
  have "prog_avoids (pe_callable pe) (range MapMutex)
      (pe_script pe (emit (CalledClose a cb flag) s) cb [PhpBool flag])" for cb
    by (rule close_safeD [OF assms(1)]) auto
  then show ?thesis
    using assms(2) run_prog_opens_nothing
    by (fastforce simp: step_simps split: option.splits if_splits)
qed

lemma fire_all_opens_nothing:
  assumes "close_safe pe UNIV" "fire_all wch pe flag as held s = Some s'"
  shows "st_maps s' = st_maps s"
  using assms(2)
  by (induction as arbitrary: s)
    (auto split: option.splits dest: fire_on_close_opens_nothing [OF assms(1)])

lemma close_connections_fires:
  assumes "close_safe pe UNIV" "\<And>m. hash_order (mord m)" "maps_finite s"
  shows "\<exists>s'. close_connections wch pe mord states s = Some s' \<and>
     (\<forall>e \<in> set (st_trace s). e \<in> set (st_trace s')) \<and>
     (\<forall>state \<in> set states. \<forall>sl \<in> ran (st_maps s (cs_callbacks state)).
        installed (pe_callable pe) (ss_on_close sl) s \<longrightarrow> fires False (ss_on_close sl) s')"
  using assms(3)
proof (induction states arbitrary: s)
  case Nil
  then show ?case by simp
next
  case (Cons state states)
  let ?m = "cs_callbacks state"
  obtain s1 where s1: "drain_callbacks wch pe (mord ?m) False ?m s = Some s1"
    using drain_callbacks_returns [OF close_safe_mono [OF assms(1)]] by blast
  have maps: "st_maps s1 = (st_maps s)(?m := Map.empty)"
    using s1 fire_all_opens_nothing [OF assms(1)] by (fastforce simp: drain_callbacks_def)
  have "maps_finite s1"
    using Cons.prems maps by (simp add: maps_finite_def)
  then obtain s' where s': "close_connections wch pe mord states s1 = Some s'"
    "\<forall>e \<in> set (st_trace s1). e \<in> set (st_trace s')"
    "\<forall>state \<in> set states. \<forall>sl \<in> ran (st_maps s1 (cs_callbacks state)).
       installed (pe_callable pe) (ss_on_close sl) s1 \<longrightarrow> fires False (ss_on_close sl) s'"
    using Cons.IH by blast
  have old: "e \<in> set (st_trace s')" if "e \<in> set (st_trace s)" for e
    using happened.drain_callbacks_inv [OF refl s1 that] s'(2) by blast
  have own: "fires False (ss_on_close sl) s'"
    if "sl \<in> ran (st_maps s ?m)" "installed (pe_callable pe) (ss_on_close sl) s" for sl
    using drain_callbacks_fires [OF s1 assms(2) Cons.prems _ that(2)] that(1) s'(2)
    by (auto simp: fires_def ran_def)
  have "fires False (ss_on_close sl) s'"
    if "st \<in> set states" "sl \<in> ran (st_maps s (cs_callbacks st))"
      "installed (pe_callable pe) (ss_on_close sl) s" for st sl
  proof (cases "cs_callbacks st = ?m")
    case True
    then show ?thesis using own that by simp
  next
    case False
    then have "sl \<in> ran (st_maps s1 (cs_callbacks st))" using that(2) maps by simp
    then show ?thesis
      using s'(3) that(1) installed.drain_callbacks_inv [OF refl s1 that(3)] by blast
  qed
  then show ?case
    using s1 s'(1) old own by (intro exI [of _ s']) auto
qed

lemma server_close_fires:
  assumes "callbacks_ok s" "close_safe pe UNIV" "hash_order cord" "\<And>m. hash_order (mord m)"
    and "finite (dom (sv_connections sv))"
  shows "\<exists>s'. server_close wch pe cord mord sv s =
       Some (sv\<lparr>sv_connections := Map.empty, sv_listening := False\<rparr>, s') \<and>
     distinct (fired s') \<and>
     (\<forall>state \<in> ran (sv_connections sv). \<forall>sl \<in> ran (st_maps s (cs_callbacks state)).
        installed (pe_callable pe) (ss_on_close sl) s \<longrightarrow> fires False (ss_on_close sl) s')"
proof -
  let ?states = "List.map_filter (sv_connections sv) (cord (dom (sv_connections sv)))"
  have states: "set ?states = ran (sv_connections sv)"
    using hash_orderD [OF assms(3,5)] by (force simp: map_filter_in_dom ran_def dom_def image_def)
  obtain s' where s': "close_connections wch pe mord ?states s = Some s'"
    "\<forall>state \<in> set ?states. \<forall>sl \<in> ran (st_maps s (cs_callbacks state)).
       installed (pe_callable pe) (ss_on_close sl) s \<longrightarrow> fires False (ss_on_close sl) s'"
    using close_connections_fires [where mord = mord, OF assms(2,4), of s wch ?states]
      assms(1) by (auto simp: callbacks_ok_def)
  have "callbacks_ok s'"
    using callbacks.close_connections_inv [where mord = mord, OF refl assms(4) s'(1) assms(1)] .
  then have "distinct (fired s')" by (simp add: callbacks_ok_def slots_inv_def)
  with s' show ?thesis
    unfolding states by (simp add: server_close_def)
qed

text \<open>C18: \<open>close\<close> of the server always returns when the \<open>on_close\<close> callbacks keep off their own
  slots and open no streams. Then the \<open>on_close\<close> callback of every stream of every connection
  that had one has been called with \<open>false\<close>, no slot was called twice, all connections are
  dropped and no connection is accepted any more; the id counter and both channels are kept.\<close>

theorem server_close_notifies_every_stream:
  assumes "callbacks_ok s" "close_safe pe UNIV" "hash_order cord" "\<And>m. hash_order (mord m)"
    and "finite (dom (sv_connections sv))"
  shows "\<exists>s'. server_close wch pe cord mord sv s =
       Some (sv\<lparr>sv_connections := Map.empty, sv_listening := False\<rparr>, s') \<and>
     distinct (fired s') \<and>
     (\<forall>state \<in> ran (sv_connections sv). \<forall>sl \<in> ran (st_maps s (cs_callbacks state)).
        installed (pe_callable pe) (ss_on_close sl) s \<longrightarrow> fires False (ss_on_close sl) s')"
  by (rule server_close_fires [where mord = mord, OF assms])

theorem server_close_notifies_every_stream_witness:
  "\<exists>s'. server_close fifo_mpsc example_engine sorted_list_of_set (\<lambda>_. sorted_list_of_set)
       demo_server demo_store =
     Some (demo_server\<lparr>sv_connections := Map.empty, sv_listening := False\<rparr>, s') \<and>
     distinct (fired s') \<and> fires False 4 s'"
proof -
  have conn: "demo_state \<in> ran (sv_connections demo_server)" "cs_callbacks demo_state = 2"
    "demo_slots \<in> ran (st_maps demo_store 2)" "ss_on_close demo_slots = 4"
    "finite (dom (sv_connections demo_server))"
    by (auto simp: demo_server_def demo_state_def demo_store_def demo_slots_def ran_def)
  show ?thesis
    using server_close_notifies_every_stream [where mord = "\<lambda>_. sorted_list_of_set",
        OF demo_store_ok example_engine_safe(2) hash_order_sorted hash_order_sorted conn(5),
        of fifo_mpsc]
      conn demo_installed by fastforce
qed

subsection \<open>New streams and data\<close>

text \<open>C19: A new stream of a known connection is registered under its id with two fresh slots, and
  then the stream callback runs. The object it is given carries the connection's number, the
  stream's id, the peer's address and the connection's handle, its \<open>on_data\<close> and \<open>on_close\<close>
  are the two slots that were registered, in this order, and for a bidirectional stream its
  sending side is the connection's write channel and \<open>Notify\<close>. No lock but that of the callback
  itself is held while it runs, and it always hands control back, whatever methods it calls.\<close>

theorem new_stream_reaches_php:
  assumes "sv_connections sv cid = Some state" "sv_stream_callback sv = Some cb"
    and "pe_callable pe cb" "ev = NewBidi i \<or> ev = NewUni i"
  shows "\<exists>obj a b s1 s'. dispatch_driver_event wch pe cid ev sv s = Some s' \<and>
     st_next s \<le> a \<and> st_next s \<le> b \<and> a \<noteq> b \<and>
     (ev = NewBidi i \<longrightarrow> obj = IncomingBidi
        \<lparr>ib_conn_id = cid, ib_stream_id = i, ib_peer_addr = cs_peer_addr state,
         ib_write_tx = coh_write_tx (cs_open_handle state),
         ib_write_notify = coh_write_notify (cs_open_handle state),
         ib_on_data = a, ib_on_close = b, ib_conn_handle = cs_open_handle state\<rparr>) \<and>
     (ev = NewUni i \<longrightarrow> obj = IncomingUni
        \<lparr>iu_conn_id = cid, iu_stream_id = i, iu_peer_addr = cs_peer_addr state,
         iu_on_data = a, iu_on_close = b, iu_conn_handle = cs_open_handle state\<rparr>) \<and>
     st_maps s1 = (st_maps s)(cs_callbacks state :=
       (st_maps s (cs_callbacks state))(i \<mapsto> \<lparr>ss_on_data = a, ss_on_close = b\<rparr>)) \<and>
     st_slots s1 = (st_slots s)(a := None, b := None) \<and> st_chans s1 = st_chans s \<and>
     st_trace s1 = st_trace s @ [CalledStream cb obj] \<and>
     run_prog wch pe (pe_script pe s1 cb [PhpObj obj]) {StreamCallbackMutex} s1 = Some s'"
proof -
  define obj where "obj = (if ev = NewBidi i
    then incoming_bidi cid i state (st_next s) (Suc (st_next s))
    else incoming_uni cid i state (st_next s) (Suc (st_next s)))"
  let ?s1 = "emit (CalledStream cb obj) (register_stream (cs_callbacks state) i s)"
  have eq: "dispatch_driver_event wch pe cid ev sv s =
      call_stream_callback wch pe (Some cb) obj {} (register_stream (cs_callbacks state) i s)"
    using assms(1,2,4)
    by (auto simp: dispatch_driver_event_def callbacks.dispatch_new_stream_eq obj_def)
  obtain s' where s': "dispatch_driver_event wch pe cid ev sv s = Some s'"
    using call_stream_callback_returns [of wch pe "Some cb" obj] eq by auto
  then have "run_prog wch pe (pe_script pe ?s1 cb [PhpObj obj]) {StreamCallbackMutex} ?s1 = Some s'"
    using eq assms(3) by (simp add: call_stream_callback_def Let_def)
  with s' show ?thesis
    by (intro exI [of _ obj] exI [of _ "st_next s"] exI [of _ "Suc (st_next s)"] exI [of _ ?s1]
        exI [of _ s'])
      (simp add: obj_def incoming_bidi_def incoming_uni_def fun_upd_twist)
qed

theorem new_stream_reaches_php_witness:
  "\<exists>s' a b. dispatch_driver_event fifo_mpsc example_engine 7 (NewBidi 8) demo_server demo_store =
     Some s' \<and> a \<noteq> b \<and> st_maps s' 2 8 = Some \<lparr>ss_on_data = a, ss_on_close = b\<rparr> \<and>
     st_trace s' = [CalledStream (Zval 1) (IncomingBidi
       \<lparr>ib_conn_id = 7, ib_stream_id = 8, ib_peer_addr = ''127.0.0.1:4000'', ib_write_tx = 0,
        ib_write_notify = 1, ib_on_data = a, ib_on_close = b, ib_conn_handle = example_handle\<rparr>)]"
proof -
  have "sv_connections demo_server 7 = Some demo_state"
    "sv_stream_callback demo_server = Some (Zval 1)" "pe_callable example_engine (Zval 1)"
    by (simp_all add: demo_server_def example_engine_def)
  from new_stream_reaches_php [OF this, of "NewBidi 8" 8 fifo_mpsc demo_store]
  obtain obj a b s1 s' where r: "dispatch_driver_event fifo_mpsc example_engine 7 (NewBidi 8)
      demo_server demo_store = Some s'" "a \<noteq> b"
    "obj = IncomingBidi
        \<lparr>ib_conn_id = 7, ib_stream_id = 8, ib_peer_addr = cs_peer_addr demo_state,
         ib_write_tx = coh_write_tx (cs_open_handle demo_state),
         ib_write_notify = coh_write_notify (cs_open_handle demo_state),
         ib_on_data = a, ib_on_close = b, ib_conn_handle = cs_open_handle demo_state\<rparr>"
    "st_maps s1 = (st_maps demo_store)(cs_callbacks demo_state :=
       (st_maps demo_store (cs_callbacks demo_state))(8 \<mapsto> \<lparr>ss_on_data = a, ss_on_close = b\<rparr>))"
    "st_trace s1 = st_trace demo_store @ [CalledStream (Zval 1) obj]"
    "run_prog fifo_mpsc example_engine (pe_script example_engine s1 (Zval 1) [PhpObj obj])
       {StreamCallbackMutex} s1 = Some s'"
    by blast
  then show ?thesis
    by (intro exI [of _ s'] exI [of _ a] exI [of _ b])
      (simp add: demo_store_def demo_state_def example_engine_def example_handle_def)
qed

interpretation trace_prefix: callback_invariant wch callable "\<lambda>s. \<exists>rest. st_trace s = tr @ rest"
  for wch :: "('wc, stream_writer) mpsc" and callable tr
  by unfold_locales auto

text \<open>C15: Data of a registered stream with an \<open>on_data\<close> callback is passed on: the first thing
  PHP sees is one call of that callback with exactly the bytes and the FIN flag. Without a FIN
  nothing is closed. With a FIN the stream is taken out of the map and its \<open>on_close\<close>, if
  installed, is called with \<open>true\<close>. The handler always returns when \<open>on_data\<close> keeps off its
  own slot, \<open>on_close\<close> keeps off its own, and neither opens streams.\<close>

theorem data_reaches_php:
  assumes "sv_connections sv cid = Some state" "st_maps s (cs_callbacks state) i = Some sl"
    and "st_slots s (ss_on_data sl) = Some cb" "pe_callable pe cb" "close_safe pe UNIV"
    and "\<And>s. prog_avoids (pe_callable pe) (insert (SlotMutex (ss_on_data sl)) (range MapMutex))
           (pe_script pe s cb [PhpStr data, PhpBool fin])"
  shows "\<exists>s'. dispatch_driver_event wch pe cid (Data i data fin) sv s = Some s' \<and>
     (\<exists>rest. st_trace s' = st_trace s @ CalledData (ss_on_data sl) cb data fin # rest) \<and>
     st_maps s' = (if fin
       then (st_maps s)(cs_callbacks state := (st_maps s (cs_callbacks state))(i := None))
       else st_maps s) \<and>
     (\<not> fin \<longrightarrow> fired s' = fired s) \<and>
     (fin \<longrightarrow> installed (pe_callable pe) (ss_on_close sl) s \<longrightarrow>
        fired s' = fired s @ [ss_on_close sl] \<and> fires True (ss_on_close sl) s')"
proof -
  let ?m = "cs_callbacks state" and ?a = "ss_on_data sl"
  let ?s = "emit (CalledData ?a cb data fin) s"
  obtain s1 where run: "run_prog wch pe (pe_script pe ?s cb [PhpStr data, PhpBool fin])
      {SlotMutex ?a} ?s = Some s1"
    using run_prog_returns [OF prog_avoids_mono [OF assms(6)]] by blast
  then have call: "call_on_data wch pe ?a data fin {} s = Some s1"
    using assms(3,4) by (simp add: call_on_data_def Let_def)
  have maps: "st_maps s1 = st_maps s"
    using run_prog_opens_nothing [OF prog_avoids_mono [OF assms(6)] run] by auto
  have fired1: "fired s1 = fired s"
    using fires_none.run_prog_inv [OF refl run] by simp
  have trace1: "\<exists>rest. st_trace s1 = (st_trace s @ [CalledData ?a cb data fin]) @ rest"
    using trace_prefix.run_prog_inv [OF refl run, of "st_trace s @ [CalledData ?a cb data fin]"]
    by simp
  have inst: "installed (pe_callable pe) b s1" if "installed (pe_callable pe) b s" for b
    using installed.run_prog_inv [OF refl run] installed.inv_called_data [OF that] by simp
  have eq: "dispatch_driver_event wch pe cid (Data i data fin) sv s =
      (case (if fin then Some sl else None) of
         None \<Rightarrow> Some s1
       | Some sl \<Rightarrow> fire_on_close wch pe True (ss_on_close sl) {}
           (s1\<lparr>st_maps := (st_maps s1)(?m := (st_maps s1 ?m)(i := None))\<rparr>))"
    using assms(1,2) call maps by (simp add: dispatch_driver_event_def dispatch_data_eq)
  show ?thesis
  proof (cases fin)
    case False
    then show ?thesis using eq maps fired1 trace1 by simp
  next
    case True
    let ?s2 = "s1\<lparr>st_maps := (st_maps s1)(?m := (st_maps s1 ?m)(i := None))\<rparr>"
    obtain s' where s': "fire_on_close wch pe True (ss_on_close sl) {} ?s2 = Some s'"
      using fire_on_close_returns [OF _ close_safeD [OF assms(5)]] by fastforce
    have "fired s' = fired s @ [ss_on_close sl] \<and> fires True (ss_on_close sl) s'"
      if "installed (pe_callable pe) (ss_on_close sl) s"
      using s' inst [OF that] fired1
      by (cases rule: fire_on_close_fired) (auto simp: installed_def slots_callable_def)
    moreover have "\<exists>rest. st_trace s' = (st_trace s @ [CalledData ?a cb data fin]) @ rest"
      using trace_prefix.fire_on_close_inv [OF refl s',
          of "st_trace s @ [CalledData ?a cb data fin]"] trace1 by simp
    ultimately show ?thesis
      using True eq s' maps fire_on_close_opens_nothing [OF assms(5) s'] by simp
  qed
qed

theorem data_reaches_php_witness:
  "\<exists>s'. dispatch_driver_event fifo_mpsc example_engine 7 (Data 0 [1, 2] True) demo_server
       demo_store = Some s' \<and> st_maps s' 2 0 = None \<and> fired s' = [4] \<and>
     (\<exists>rest. st_trace s' = CalledData 3 (Zval 10) [1, 2] True # rest)"
proof -
  have ex: "sv_connections demo_server 7 = Some demo_state"
    "st_maps demo_store (cs_callbacks demo_state) 0 = Some demo_slots"
    "st_slots demo_store (ss_on_data demo_slots) = Some (Zval 10)"
    "pe_callable example_engine (Zval 10)"
    "\<And>s vs held. prog_avoids (pe_callable example_engine) held
       (pe_script example_engine s (Zval 10) vs)"
    by (simp_all add: demo_server_def demo_state_def demo_store_def demo_slots_def
        example_engine_def)
  have "fired demo_store = []" "st_trace demo_store = []"
    by (simp_all add: demo_store_def fired_def map_filter_simps)
  moreover have "ss_on_data demo_slots = 3" "ss_on_close demo_slots = 4"
    "cs_callbacks demo_state = 2"
    by (simp_all add: demo_slots_def demo_state_def)
  ultimately show ?thesis
    using data_reaches_php [where i = 0 and data = "[1, 2]" and fin = True and wch = fifo_mpsc,
        OF ex(1-4) example_engine_safe(2) ex(5)] demo_installed
    by fastforce
qed

subsection \<open>The loop\<close>

text \<open>C16: \<open>tick\<close> never hangs in a callback when \<open>on_data\<close> callbacks keep off their own slot, and
  \<open>on_close\<close> callbacks keep off their own slot and open no streams: whatever arrives, every
  pass of the loop ends. The stream callback needs no such condition.\<close>

theorem tick_never_hangs:
  assumes "data_safe pe" "close_safe pe UNIV"
  shows "tick wch ech cch pe ord has_efd inps sv s \<noteq> None"
proof (induction inps arbitrary: sv s)
  case Nil
  then show ?case by simp
next
  case (Cons inp inps)
  have "handle_event wch pe ord ev sv1 s \<noteq> None" for ev sv1
    using handle_event_returns [OF assms, of wch ord ev sv1 s] by auto
  then show ?case
    using Cons
    by (cases has_efd) (auto simp: Let_def simp del: not_None_eq split: option.split prod.split)
qed

theorem tick_never_hangs_witness:
  "tick fifo_mpsc fifo_mpsc fifo_mpsc example_engine sorted_list_of_set True
     [\<lparr>ti_events = (\<lambda>c. c\<lparr>fifo_items := [(7, Data 0 [1] True)]\<rparr>), ti_closes = id,
       ti_accept = None, ti_readable = True\<rparr>] demo_server demo_store \<noteq> None"
  by (rule tick_never_hangs [OF example_engine_safe])




text \<open>C29: Opening a stream of the same connection inside an \<open>on_close\<close> callback hangs the server.
  The loop holds the mutex of the connection's callback map while it drains the map, and
  \<open>openBidiStream\<close> and \<open>openUniStream\<close> lock the same mutex. So if any one stream of a closing
  connection has a callback that, whatever else it does, comes to such a call, the close is
  never finished, however many streams there are and in whatever order the map yields them. The
  other \<open>on_close\<close> callbacks are supposed not to replace this one before it is called.\<close>

theorem open_stream_in_on_close_hangs:
  assumes "hash_order ord" "sv_connections sv cid = Some state"
    and "finite (dom (st_maps s (cs_callbacks state)))"
    and "st_maps s (cs_callbacks state) i = Some sl" "ss_on_close sl < st_next s"
    and "st_slots s (ss_on_close sl) = Some cb" "pe_callable pe cb"
    and "\<And>s. prog_needs (pe_callable pe) (MapMutex (cs_callbacks state))
           (pe_script pe s cb [PhpBool flag])"
    and "\<And>s cb'. cb' \<noteq> cb \<Longrightarrow>
           prog_avoids (pe_callable pe) {SlotMutex (ss_on_close sl)} (pe_script pe s cb' [PhpBool flag])"
  shows "handle_event wch pe ord (ConnClosed cid flag) sv s = None"
proof -
  let ?m = "cs_callbacks state"
  have "ss_on_close sl \<in> set (close_slots ord (st_maps s ?m))"
    using assms(4) set_close_slots [OF assms(1,3)] by (auto intro: ranI)
  then have "fire_all wch pe flag (close_slots ord (st_maps s ?m)) {MapMutex ?m}
      (s\<lparr>st_maps := (st_maps s)(?m := Map.empty)\<rparr>) = None"
    using assms(5,6) by (intro fire_all_hangs [OF assms(8) _ assms(7,9)]) auto
  then show ?thesis
    using assms(2) by (simp add: handle_event_def conn_closed_def drain_callbacks_def)
qed

text \<open>
  Two streams with an \<open>on_close\<close> callback: the first returns at once, the second writes and
  then opens a stream.
\<close>

definition reopening_engine :: "'wc php_engine" where
  "reopening_engine = \<lparr>pe_callable = (\<lambda>_. True),
     pe_script = (\<lambda>_ cb _.
       if cb = Zval 12
       then Call (Write example_incoming [1] False) (\<lambda>_.
         Call (OpenBidiStream example_incoming 1) (\<lambda>_. Done))
       else Done)\<rparr>"

theorem open_stream_in_on_close_hangs_witness:
  "handle_event fifo_mpsc reopening_engine sorted_list_of_set (ConnClosed 7 True) demo_server
     (demo_store\<lparr>st_slots := (st_slots demo_store)(6 \<mapsto> Zval 12)\<rparr>) = None"
  by (rule open_stream_in_on_close_hangs [where state = demo_state and i = 4 and cb = "Zval 12"
        and sl = "\<lparr>ss_on_data = 5, ss_on_close = 6\<rparr>"])
    (simp_all add: hash_order_sorted demo_server_def demo_state_def demo_store_def
      reopening_engine_def example_incoming_def example_handle_def)

text \<open>What the loop does for a list of driver events, one after the other.\<close>

fun dispatch_all ::
  "('wc, stream_writer) mpsc \<Rightarrow> 'wc php_engine \<Rightarrow> ('ec, 'cc) server \<Rightarrow> (u64 \<times> driver_event) list \<Rightarrow>
   'wc store \<Rightarrow> 'wc store option" where
  "dispatch_all wch pe sv [] s = Some s"
| "dispatch_all wch pe sv ((cid, ev) # evs) s =
     (case dispatch_driver_event wch pe cid ev sv s of
        None \<Rightarrow> None
      | Some s' \<Rightarrow> dispatch_all wch pe sv evs s')"

lemma dispatch_all_cong:
  assumes "sv_connections sv = sv_connections sv'" "sv_stream_callback sv = sv_stream_callback sv'"
  shows "dispatch_all wch pe sv evs s = dispatch_all wch pe sv' evs s"
proof -
  have "dispatch_driver_event wch pe cid ev sv s = dispatch_driver_event wch pe cid ev sv' s"
    for cid ev s
    using assms
    by (simp add: dispatch_driver_event_def callbacks.dispatch_new_stream_eq
        cong: option.case_cong driver_event.case_cong)
  then show ?thesis
    by (induction evs arbitrary: s) (auto split: option.split)
qed

lemma tick_dispatch_all:
  assumes "mpsc_fifo ech items room live" "live (sv_events sv)"
    and "items (sv_events sv) = evs @ rest" "length inps = length evs"
    and "\<And>inp c. inp \<in> set inps \<Longrightarrow> live c \<Longrightarrow>
           live (ti_events inp c) \<and> (\<exists>new. items (ti_events inp c) = items c @ new)"
  shows "map_option (\<lambda>(status, sv', s'). (status, s')) (tick wch ech cch pe ord has_efd inps sv s) =
     map_option (Pair Looping) (dispatch_all wch pe sv evs s)"
  using assms(2-5)
proof (induction inps arbitrary: evs rest sv s)
  case Nil
  then show ?case by simp
next
  case (Cons inp inps)
  obtain cid ev evs' where evs: "evs = (cid, ev) # evs'" "length inps = length evs'"
    using Cons.prems(3) by (cases evs) auto
  let ?sv = "sv\<lparr>sv_events := ti_events inp (sv_events sv),
    sv_closes := ti_closes inp (sv_closes sv)\<rparr>"
  obtain new where new: "live (sv_events ?sv)"
    "items (sv_events ?sv) = (cid, ev) # evs' @ rest @ new"
    using Cons.prems(4) [of inp "sv_events sv"] Cons.prems(1,2) evs(1) by auto
  obtain c where c: "try_recv ech (sv_events ?sv) = Inr ((cid, ev), c)"
    "items c = evs' @ rest @ new" "live c"
    using mpsc_fifo.try_recv_ok [OF assms(1) new] by blast
  let ?sv1 = "?sv\<lparr>sv_events := c\<rparr>"
  have sel: "select_event ech cch (ti_accept inp) efd ?sv = Some (DriverEv cid ev, ?sv1)" for efd
    using c(1) by (simp add: select_event_def)
  have same: "dispatch_driver_event wch pe cid ev ?sv1 s = dispatch_driver_event wch pe cid ev sv s"
    using dispatch_all_cong [of ?sv1 sv wch pe "[(cid, ev)]" s] by (simp split: option.splits)
  show ?case
  proof (cases "dispatch_driver_event wch pe cid ev sv s")
    case None
    then show ?thesis
      using sel same evs(1) by (simp add: Let_def handle_event_def)
  next
    case (Some s1)
    have "map_option (\<lambda>(status, sv', s'). (status, s'))
        (tick wch ech cch pe ord has_efd inps ?sv1 s1) =
      map_option (Pair Looping) (dispatch_all wch pe ?sv1 evs' s1)"
      using c(2,3) evs(2) Cons.prems(4) by (intro Cons.IH [of _ _ "rest @ new"]) auto
    moreover have "dispatch_all wch pe ?sv1 evs' s1 = dispatch_all wch pe sv evs' s1"
      by (rule dispatch_all_cong) simp_all
    ultimately show ?thesis
      using sel same Some evs(1) by (simp add: Let_def handle_event_def)
  qed
qed

text \<open>C14: Driver events are handled in the order in which they were sent, without anything in
  between: while events are queued, neither a close message, nor a new connection, nor the
  timer gets in, and \<open>n\<close> passes of the loop dispatch the \<open>n\<close> oldest events, whatever drivers
  append meanwhile.\<close>

theorem tick_dispatches_in_order:
  assumes "mpsc_fifo ech items room live" "live (sv_events sv)"
    and "items (sv_events sv) = evs @ rest" "length inps = length evs"
    and "\<And>inp c. inp \<in> set inps \<Longrightarrow> live c \<Longrightarrow>
           live (ti_events inp c) \<and> (\<exists>new. items (ti_events inp c) = items c @ new)"
  shows "map_option (\<lambda>(status, sv', s'). (status, s')) (tick wch ech cch pe ord has_efd inps sv s) =
     map_option (Pair Looping) (dispatch_all wch pe sv evs s)"
  by (rule tick_dispatch_all [OF assms])

theorem tick_dispatches_in_order_witness:
  "map_option (\<lambda>(status, sv', s'). (status, s'))
     (tick fifo_mpsc fifo_mpsc fifo_mpsc example_engine sorted_list_of_set True
        (replicate 2 \<lparr>ti_events = id, ti_closes = id, ti_accept = None, ti_readable = True\<rparr>)
        (demo_server\<lparr>sv_events := \<lparr>fifo_items = [(7, Data 0 [1] False), (7, Data 0 [2] True)],
           fifo_room = 8190, fifo_live = True\<rparr>\<rparr>) demo_store) =
   map_option (Pair Looping)
     (dispatch_all fifo_mpsc example_engine
        (demo_server\<lparr>sv_events := \<lparr>fifo_items = [(7, Data 0 [1] False), (7, Data 0 [2] True)],
           fifo_room = 8190, fifo_live = True\<rparr>\<rparr>)
        [(7, Data 0 [1] False), (7, Data 0 [2] True)] demo_store)"
  by (rule tick_dispatches_in_order [OF fifo.mpsc_fifo_axioms, where rest = "[]"])
    (auto simp: demo_server_def)

subsection \<open>Replaced registrations\<close>

lemma fires_fired: "fires flag a s \<Longrightarrow> a \<in> set (fired s)"
  by (force simp: fires_def fired_def map_filter_def)

text \<open>C30: Registering a stream id a second time disconnects the callbacks of the first registration:
  after \<open>openBidiStream\<close> with the id of a stream that is still open, the \<open>on_close\<close> callback
  installed for that stream is not called when the connection is closed, with either flag.\<close>

theorem reopened_id_loses_on_close:
  assumes "callbacks_ok s" "st_maps s (cs_callbacks state) i = Some sl"
    and "open_end obj = Some h" "coh_callbacks h = cs_callbacks state"
    and "php_call wch pe (OpenBidiStream obj i) {} s = Some (r, s1)"
    and "hash_order ord" "sv_connections sv cid = Some state"
    and "conn_closed wch pe ord cid flag sv s1 = Some (sv', s')"
  shows "\<not> fires flag' (ss_on_close sl) s'"
proof -
  let ?m = "cs_callbacks state" and ?a = "ss_on_close sl"
  have s1: "s1 = register_stream ?m i s"
    using assms(3-5) by (cases obj) (auto simp: stream_defs prepare_bidi_stream_eq)
  have ok1: "callbacks_ok s1"
    unfolding s1 by (rule callbacks.inv_register [OF assms(1)])
  have inv: "slots_inv {} s" using assms(1) by (simp add: callbacks_ok_def)
  note a = slots_invD(1) [OF inv assms(2)]
  have "?a \<noteq> ss_on_close x" if x: "x \<in> ran (st_maps s1 ?m)" for x
  proof -
    obtain j where "st_maps s1 ?m j = Some x" using x by (auto simp: ran_def)
    then have "ss_on_close x = Suc (st_next s) \<or> st_maps s ?m j = Some x \<and> j \<noteq> i"
      unfolding s1 by (auto split: if_splits)
    then show ?thesis
      using a slots_invD(2) [OF inv assms(2), of ?m j x] by auto
  qed
  moreover have "drain_callbacks wch pe ord flag ?m s1 = Some s'"
    using assms(7,8) by (auto simp: conn_closed_def split: option.splits)
  then obtain as where "fired s' = fired s1 @ as" "set as \<subseteq> ss_on_close ` ran (st_maps s1 ?m)"
    using drain_callbacks_fired [OF _ assms(6)] ok1 by (fastforce simp: callbacks_ok_def)
  ultimately have "?a \<notin> set (fired s')"
    using a s1 by auto
  then show ?thesis using fires_fired by blast
qed

theorem reopened_id_loses_on_close_witness:
  "\<exists>r s1 sv' s'. php_call fifo_mpsc example_engine (OpenBidiStream example_incoming 0) {} demo_store =
       Some (r, s1) \<and>
     conn_closed fifo_mpsc example_engine sorted_list_of_set 7 True demo_server s1 = Some (sv', s') \<and>
     \<not> fires True 4 s'"
proof -
  have ex: "st_maps demo_store (cs_callbacks demo_state) 0 = Some demo_slots"
    "open_end example_incoming = Some example_handle"
    "coh_callbacks example_handle = cs_callbacks demo_state"
    "sv_connections demo_server 7 = Some demo_state" "ss_on_close demo_slots = 4"
    by (simp_all add: demo_store_def demo_state_def demo_slots_def demo_server_def
        example_incoming_def example_handle_def)
  obtain r s1 where call: "php_call fifo_mpsc example_engine (OpenBidiStream example_incoming 0) {}
      demo_store = Some (r, s1)"
    using php_call_None_iff [of fifo_mpsc example_engine "OpenBidiStream example_incoming 0" "{}"
        demo_store] by auto
  obtain sv' s' where run: "conn_closed fifo_mpsc example_engine sorted_list_of_set 7 True
      demo_server s1 = Some (sv', s')"
    using handle_event_returns [OF example_engine_safe(1,2), of fifo_mpsc sorted_list_of_set
        "ConnClosed 7 True" demo_server s1]
    by (auto simp: handle_event_def)
  show ?thesis
    using reopened_id_loses_on_close [OF demo_store_ok ex(1-3) call hash_order_sorted ex(4) run,
        of True] call run ex(5) by auto
qed

end
