(* ===== verification/Quic.thy ===== *)
theory Quic
  imports Prelude
begin

text \<open>
  The QUIC connection that tokio-quiche hands to the driver. It is a parameter of the model:
  a record of the four calls that \<open>src/quiche/driver.rs\<close> makes, on an unknown state \<open>'q\<close>.

  Two locales state what the quiche documentation promises for them. \<open>quic_reader\<close>: the
  readable streams are handed out one by one and a stream that was handed out is not handed
  out again by reading; \<open>stream_recv\<close> takes bytes off the front of a stream's unread data.
  \<open>quic_sender\<close>: \<open>stream_send\<close> accepts a prefix of the given bytes, and the FIN only together
  with all of them.
\<close>

datatype quic_error = QDone | QOther string

record 'q quic =
  stream_readable_next :: "'q \<Rightarrow> u64 option \<times> 'q"
  stream_recv :: "u64 \<Rightarrow> bytes \<Rightarrow> 'q \<Rightarrow> (quic_error + nat \<times> bool) \<times> bytes \<times> 'q"
  stream_send :: "u64 \<Rightarrow> bytes \<Rightarrow> bool \<Rightarrow> 'q \<Rightarrow> (quic_error + nat) \<times> 'q"
  peer_error :: "'q \<Rightarrow> bool"

locale quic_reader =
  fixes qc :: "'q quic"
    and armed :: "'q \<Rightarrow> u64 list"
    and unread :: "'q \<Rightarrow> u64 \<Rightarrow> bytes"
  assumes next_None:
      "armed q = [] \<Longrightarrow>
         \<exists>q'. stream_readable_next qc q = (None, q') \<and> armed q' = [] \<and> unread q' = unread q"
    and next_Some:
      "armed q = s # ss \<Longrightarrow>
         \<exists>q'. stream_readable_next qc q = (Some s, q') \<and> armed q' = ss \<and> unread q' = unread q"
    and recv_Ok:
      "stream_recv qc s buf q = (Inr (n, fin), buf', q') \<Longrightarrow>
         n \<le> length buf \<and> length buf' = length buf \<and>
         unread q = (unread q')(s := take n buf' @ unread q' s) \<and>
         length (armed q') \<le> length (armed q) \<and> set (armed q') \<subseteq> set (armed q)"
    and recv_Err:
      "stream_recv qc s buf q = (Inl e, buf', q') \<Longrightarrow>
         length buf' = length buf \<and> unread q' = unread q \<and>
         length (armed q') \<le> length (armed q) \<and> set (armed q') \<subseteq> set (armed q)"

text \<open>
  A connection on which no stream is reset: data that is there can be read, and reading one
  stream leaves the others readable.
\<close>

locale quic_live_reader = quic_reader +
  assumes recv_progress:
    "unread q s \<noteq> [] \<Longrightarrow> buf \<noteq> [] \<Longrightarrow>
       \<exists>n fin buf' q'. stream_recv qc s buf q = (Inr (n, fin), buf', q') \<and> 0 < n"
    and recv_others:
    "stream_recv qc s buf q = (r, buf', q') \<Longrightarrow> j \<in> set (armed q) \<Longrightarrow> j \<noteq> s \<Longrightarrow>
       j \<in> set (armed q')"

locale quic_sender =
  fixes qc :: "'q quic"
    and accepted :: "'q \<Rightarrow> u64 \<Rightarrow> bytes"
    and finished :: "'q \<Rightarrow> u64 \<Rightarrow> bool"
  assumes send_Ok:
      "stream_send qc s b fin q = (Inr n, q') \<Longrightarrow>
         n \<le> length b \<and> accepted q' = (accepted q)(s := accepted q s @ take n b) \<and>
         finished q' = (finished q)(s := finished q s \<or> fin \<and> n = length b)"
    and send_Err:
      "stream_send qc s b fin q = (Inl e, q') \<Longrightarrow>
         accepted q' = accepted q \<and> finished q' = finished q"

text \<open>Sending on a stream takes nothing from what the peer sent.\<close>

locale quic_duplex = quic_reader +
  assumes send_unread: "stream_send qc s b fin q = (r, q') \<Longrightarrow> unread q' = unread q"

text \<open>
  \<open>writable q s\<close>: the peer has not stopped stream \<open>s\<close> and its FIN is not sent. On such a
  stream the only error is \<open>Done\<close>, and only sending the FIN ends the state.
\<close>

locale quic_open_sender = quic_sender +
  fixes writable :: "'q \<Rightarrow> u64 \<Rightarrow> bool"
  assumes writable_Err:
      "writable q s \<Longrightarrow> stream_send qc s b fin q = (Inl e, q') \<Longrightarrow> e = QDone \<and> writable q' s"
    and writable_Ok:
      "writable q s \<Longrightarrow> stream_send qc s b fin q = (Inr n, q') \<Longrightarrow> \<not> (fin \<and> n = length b) \<Longrightarrow>
         writable q' s"
    and writable_other:
      "stream_send qc s b fin q = (r, q') \<Longrightarrow> j \<noteq> s \<Longrightarrow> writable q' j = writable q j"

subsection \<open>A connection that behaves as documented\<close>

text \<open>
  The reference connection: per stream the unread bytes, a FIN that waits behind them, the
  send window, and what was accepted for sending. A stream without a window answers \<open>Done\<close>;
  a stream marked as stopped answers an error.
\<close>

record ref_conn =
  rc_armed :: "u64 list"
  rc_unread :: "u64 \<Rightarrow> bytes"
  rc_fin :: "u64 \<Rightarrow> bool"
  rc_window :: "u64 \<Rightarrow> nat"
  rc_stopped :: "u64 \<Rightarrow> bool"
  rc_accepted :: "u64 \<Rightarrow> bytes"
  rc_finished :: "u64 \<Rightarrow> bool"
  rc_peer_error :: bool

definition rc_next :: "ref_conn \<Rightarrow> u64 option \<times> ref_conn" where
  "rc_next q = (case rc_armed q of [] \<Rightarrow> (None, q) | s # ss \<Rightarrow> (Some s, q\<lparr>rc_armed := ss\<rparr>))"

definition rc_recv ::
  "u64 \<Rightarrow> bytes \<Rightarrow> ref_conn \<Rightarrow> (quic_error + nat \<times> bool) \<times> bytes \<times> ref_conn" where
  "rc_recv s buf q =
     (let d = rc_unread q s; n = min (length buf) (length d); rest = drop n d;
          fin = (rc_fin q s \<and> rest = [])
      in if buf = [] \<or> d = [] \<and> \<not> rc_fin q s then (Inl QDone, buf, q)
         else (Inr (n, fin), take n d @ drop n buf,
               q\<lparr>rc_unread := (rc_unread q)(s := rest),
                 rc_fin := (rc_fin q)(s := rc_fin q s \<and> rest \<noteq> [])\<rparr>))"

definition rc_send :: "u64 \<Rightarrow> bytes \<Rightarrow> bool \<Rightarrow> ref_conn \<Rightarrow> (quic_error + nat) \<times> ref_conn" where
  "rc_send s b fin q =
     (if rc_stopped q s \<or> rc_finished q s then (Inl (QOther ''StreamStopped''), q)
      else if rc_window q s = 0 \<and> b \<noteq> [] then (Inl QDone, q)
      else (let n = min (length b) (rc_window q s) in
        (Inr n, q\<lparr>rc_window := (rc_window q)(s := rc_window q s - n),
                  rc_accepted := (rc_accepted q)(s := rc_accepted q s @ take n b),
                  rc_finished := (rc_finished q)(s := fin \<and> n = length b)\<rparr>)))"

definition ref_quic :: "ref_conn quic" where
  "ref_quic = \<lparr>stream_readable_next = rc_next, stream_recv = rc_recv, stream_send = rc_send,
     peer_error = rc_peer_error\<rparr>"

lemmas ref_quic_simps = ref_quic_def rc_next_def rc_recv_def rc_send_def Let_def

interpretation ref_reader: quic_live_reader ref_quic rc_armed rc_unread
  by unfold_locales (auto simp: ref_quic_simps fun_eq_iff split: if_splits)

interpretation ref_duplex: quic_duplex ref_quic rc_armed rc_unread
  by unfold_locales (auto simp: ref_quic_simps split: if_splits)

definition rc_writable :: "ref_conn \<Rightarrow> u64 \<Rightarrow> bool" where
  "rc_writable q s \<longleftrightarrow> \<not> rc_stopped q s \<and> \<not> rc_finished q s"

interpretation ref_sender: quic_open_sender ref_quic rc_accepted rc_finished rc_writable
  by unfold_locales
    (auto simp: ref_quic_simps rc_writable_def fun_eq_iff split: if_splits)

end
