(* ===== verification/Driver_Reads.thy ===== *)
theory Driver_Reads
  imports Store Channel Quic
begin

text \<open>
  The first half of \<open>src/quiche/driver.rs\<close>: the small callbacks of \<open>ApplicationOverQuic\<close>
  and \<open>process_reads\<close>, which moves what a client sent from the QUIC connection into the
  server's event channel. \<open>ech\<close> is the implementation of that channel, \<open>qc\<close> the QUIC
  connection, \<open>c\<close> and \<open>q\<close> their states.

  Both loops of \<open>process_reads\<close> end only if the connection lets them: the outer one when no
  stream is readable any more, the inner one when \<open>stream_recv\<close> has an error or the channel
  is full. They are partial functions; \<open>read_loop_ends\<close> and its consequences show that they
  return whenever channel and connection behave as documented.
\<close>

unbundle bit_operations_syntax

definition STREAM_ID_INITIATOR_MASK :: u64 where
  "STREAM_ID_INITIATOR_MASK = 0b01"

definition STREAM_ID_DIRECTION_MASK :: u64 where
  "STREAM_ID_DIRECTION_MASK = 0b10"

subsection \<open>The small callbacks\<close>

definition on_conn_established :: "driver \<Rightarrow> driver" where
  "on_conn_established d = d\<lparr>drv_established := True\<rparr>"

definition should_act :: "driver \<Rightarrow> bool" where
  "should_act d = drv_established d"

definition buffer :: "driver \<Rightarrow> bytes" where
  "buffer d = drv_io_worker_buf d"

text \<open>The driver's task sleeps until its \<open>Notify\<close> has been notified.\<close>

definition wait_for_data :: "bool \<Rightarrow> unit option" where
  "wait_for_data notified = (if notified then Some () else None)"

subsection \<open>\<open>process_reads\<close>\<close>

definition client_initiated :: "u64 \<Rightarrow> bool" where
  "client_initiated stream_id \<longleftrightarrow> stream_id AND STREAM_ID_INITIATOR_MASK = 0"

definition announcement :: "u64 \<Rightarrow> driver_event" where
  "announcement stream_id =
     (if stream_id AND STREAM_ID_DIRECTION_MASK = 0 then NewBidi stream_id else NewUni stream_id)"

text \<open>\<open>None\<close> is the \<open>break 'outer\<close> on a channel without a free place.\<close>

definition announce ::
  "('ec, u64 \<times> driver_event) mpsc \<Rightarrow> u64 \<Rightarrow> driver \<Rightarrow> 'ec \<Rightarrow> (driver \<times> 'ec) option" where
  "announce ech stream_id d c =
     (if client_initiated stream_id \<and> stream_id \<notin> drv_seen_streams d
      then (case try_reserve ech c of
              Inr c1 \<Rightarrow>
                Some (d\<lparr>drv_seen_streams := insert stream_id (drv_seen_streams d)\<rparr>,
                      permit_send ech (drv_conn_id d, announcement stream_id) c1)
            | Inl e \<Rightarrow> None)
      else Some (d, c))"

text \<open>
  The inner loop. The first component of the result says whether it left by
  \<open>break 'outer\<close>. \<open>&io_worker_buf[..n]\<close> panics when \<open>n\<close> is beyond the buffer.
\<close>

partial_function (option) recv_loop ::
  "('ec, u64 \<times> driver_event) mpsc \<Rightarrow> 'q quic \<Rightarrow> u64 \<Rightarrow> driver \<Rightarrow> 'ec \<Rightarrow> 'q \<Rightarrow>
   (bool \<times> driver \<times> 'ec \<times> 'q) option" where
  "recv_loop ech qc stream_id d c q =
     (case try_reserve ech c of
        Inl e \<Rightarrow> Some (True, d, c, q)
      | Inr c1 \<Rightarrow>
          (case stream_recv qc stream_id (drv_io_worker_buf d) q of
             (r, buf, q1) \<Rightarrow>
               (case r of
                  Inr (n, fin) \<Rightarrow>
                    if length buf < n then None
                    else recv_loop ech qc stream_id
                           (d\<lparr>drv_io_worker_buf := buf,
                              drv_seen_streams := (if fin then drv_seen_streams d - {stream_id}
                                                   else drv_seen_streams d)\<rparr>)
                           (permit_send ech (drv_conn_id d, Data stream_id (take n buf) fin) c1)
                           q1
                | Inl e \<Rightarrow>
                    Some (False, d\<lparr>drv_io_worker_buf := buf\<rparr>, permit_drop ech c1, q1))))"

partial_function (option) read_loop ::
  "('ec, u64 \<times> driver_event) mpsc \<Rightarrow> 'q quic \<Rightarrow> driver \<Rightarrow> 'ec \<Rightarrow> 'q \<Rightarrow>
   (driver \<times> 'ec \<times> 'q) option" where
  "read_loop ech qc d c q =
     (case stream_readable_next qc q of
        (None, q1) \<Rightarrow> Some (d, c, q1)
      | (Some stream_id, q1) \<Rightarrow>
          (case announce ech stream_id d c of
             None \<Rightarrow> Some (d, c, q1)
           | Some (d1, c1) \<Rightarrow>
               (case recv_loop ech qc stream_id d1 c1 q1 of
                  None \<Rightarrow> None
                | Some (broke, d2, c2, q2) \<Rightarrow>
                    if broke then Some (d2, c2, q2) else read_loop ech qc d2 c2 q2)))"

definition process_reads ::
  "('ec, u64 \<times> driver_event) mpsc \<Rightarrow> 'q quic \<Rightarrow> driver \<Rightarrow> 'ec \<Rightarrow> 'q \<Rightarrow>
   (driver \<times> 'ec \<times> 'q) option" where
  "process_reads ech qc d c q = read_loop ech qc d c q"

text \<open>
  Whatever channel and connection do, a run of the loops changes the scratch buffer and the set
  of announced streams of the driver only.
\<close>

definition reads_frame :: "driver \<Rightarrow> driver \<Rightarrow> bool" where
  "reads_frame d d' \<longleftrightarrow>
     d' = d\<lparr>drv_io_worker_buf := drv_io_worker_buf d', drv_seen_streams := drv_seen_streams d'\<rparr>"

lemma reads_frame_simps [simp]:
  "reads_frame d d"
  "reads_frame d (d\<lparr>drv_io_worker_buf := b\<rparr>)"
  "reads_frame d (d\<lparr>drv_seen_streams := S\<rparr>)"
  "reads_frame d (d\<lparr>drv_io_worker_buf := b, drv_seen_streams := S\<rparr>)"
  by (simp_all add: reads_frame_def)

text \<open>
  The contract of an invariant of driver and event channel under the two loops: sending with a
  permit and giving a permit back keep it. Then both loops keep it, whatever the connection
  answers.
\<close>

locale reads_invariant =
  fixes ech :: "('ec, u64 \<times> driver_event) mpsc"
    and inv :: "driver \<Rightarrow> 'ec \<Rightarrow> bool"
  assumes inv_send:
      "inv d c \<Longrightarrow> try_reserve ech c = Inr c1 \<Longrightarrow>
         inv (d\<lparr>drv_io_worker_buf := b, drv_seen_streams := S\<rparr>)
           (permit_send ech (drv_conn_id d, e) c1)"
    and inv_give_back:
      "inv d c \<Longrightarrow> try_reserve ech c = Inr c1 \<Longrightarrow>
         inv (d\<lparr>drv_io_worker_buf := b\<rparr>) (permit_drop ech c1)"
begin

lemma announce_inv:
  assumes "announce ech i d c = Some (d', c')" "inv d c"
  shows "inv d' c'"
  using assms inv_send [OF assms(2), where b = "drv_io_worker_buf d"]
  by (auto simp: announce_def split: if_splits sum.splits)

lemma recv_loop_inv:
  assumes "recv_loop ech qc i d c q = Some (broke, d', c', q')" "inv d c"
  shows "inv d' c'"
proof -
  have "ech = ech \<longrightarrow> inv d c \<longrightarrow>
      inv (fst (snd (broke, d', c', q'))) (fst (snd (snd (broke, d', c', q'))))"
  proof (rule recv_loop.raw_induct [where P = "\<lambda>e qc i d c q r. e = ech \<longrightarrow> inv d c \<longrightarrow>
        inv (fst (snd r)) (fst (snd (snd r)))", OF _ assms(1)], intro impI)
    fix loop e and qc :: "'q quic" and i d c q and r :: "bool \<times> driver \<times> 'ec \<times> 'q"
    assume IH: "\<And>e qc i d c q r. loop e qc i d c q = Some r \<Longrightarrow>
        e = ech \<longrightarrow> inv d c \<longrightarrow> inv (fst (snd r)) (fst (snd (snd r)))"
      and r: "(case try_reserve e c of
          Inl x \<Rightarrow> Some (True, d, c, q)
        | Inr c1 \<Rightarrow> (case stream_recv qc i (drv_io_worker_buf d) q of
            (r, buf, q1) \<Rightarrow> (case r of
              Inl x \<Rightarrow> Some (False, d\<lparr>drv_io_worker_buf := buf\<rparr>, permit_drop e c1, q1)
            | Inr (n, fin) \<Rightarrow> if length buf < n then None
                else loop e qc i (d\<lparr>drv_io_worker_buf := buf, drv_seen_streams :=
                    (if fin then drv_seen_streams d - {i} else drv_seen_streams d)\<rparr>)
                  (permit_send e (drv_conn_id d, Data i (take n buf) fin) c1) q1))) = Some r"
      and [simp]: "e = ech" and P: "inv d c"
    show "inv (fst (snd r)) (fst (snd (snd r)))"
    proof (cases "try_reserve ech c")
      case (Inl x)
      with r P show ?thesis by auto
    next
      case (Inr c1)
      with r inv_send [OF P Inr] inv_give_back [OF P Inr] show ?thesis
        using IH [of ech] by (auto split: prod.splits sum.splits if_split_asm)
    qed
  qed
  with assms(2) show ?thesis by simp
qed

lemma read_loop_inv:
  assumes "read_loop ech qc d c q = Some (d', c', q')" "inv d c"
  shows "inv d' c'"
proof -
  have "ech = ech \<longrightarrow> inv d c \<longrightarrow> inv (fst (d', c', q')) (fst (snd (d', c', q')))"
  proof (rule read_loop.raw_induct [where P = "\<lambda>e qc d c q r. e = ech \<longrightarrow> inv d c \<longrightarrow>
        inv (fst r) (fst (snd r))", OF _ assms(1)], intro impI)
    fix loop e and qc :: "'q quic" and d c q and r :: "driver \<times> 'ec \<times> 'q"
    assume IH: "\<And>e qc d c q r. loop e qc d c q = Some r \<Longrightarrow>
        e = ech \<longrightarrow> inv d c \<longrightarrow> inv (fst r) (fst (snd r))"
      and r: "(case stream_readable_next qc q of
          (None, q1) \<Rightarrow> Some (d, c, q1)
        | (Some i, q1) \<Rightarrow> (case announce e i d c of
            None \<Rightarrow> Some (d, c, q1)
          | Some (d1, c1) \<Rightarrow> (case recv_loop e qc i d1 c1 q1 of
              None \<Rightarrow> None
            | Some (broke, d2, c2, q2) \<Rightarrow>
                if broke then Some (d2, c2, q2) else loop e qc d2 c2 q2))) = Some r"
      and [simp]: "e = ech" and P: "inv d c"
    have step: "inv d2 c2" if "announce ech i d c = Some (d1, c1)"
      "recv_loop ech qc i d1 c1 q1 = Some (broke, d2, c2, q2)" for i d1 c1 q1 broke d2 c2 q2
      using recv_loop_inv [OF that(2) announce_inv [OF that(1) P]] .
    show "inv (fst r) (fst (snd r))"
      using r P
      by (auto split: option.splits prod.splits if_split_asm
          dest: step intro: IH [of ech, THEN mp, THEN mp, OF _ refl])
  qed
  with assms(2) show ?thesis by simp
qed

end

lemma reads_frame_upd:
  "reads_frame d0 d \<Longrightarrow> reads_frame d0 (d\<lparr>drv_io_worker_buf := b\<rparr>)"
  "reads_frame d0 d \<Longrightarrow> reads_frame d0 (d\<lparr>drv_io_worker_buf := b, drv_seen_streams := S\<rparr>)"
  by (cases d; cases d0; simp add: reads_frame_def)+

interpretation framed: reads_invariant ech "\<lambda>d c. reads_frame d0 d"
  for ech :: "('ec, u64 \<times> driver_event) mpsc" and d0
  by unfold_locales (auto intro: reads_frame_upd)

lemma read_loop_frame: "read_loop ech qc d c q = Some (d', c', q') \<Longrightarrow> reads_frame d d'"
  by (rule framed.read_loop_inv [OF _ reads_frame_simps(1)])

subsection \<open>\<open>on_conn_close\<close>\<close>

text \<open>The result of \<open>try_send\<close> is only logged: on an error the channel is as it was.\<close>

definition on_conn_close ::
  "('cc, u64 \<times> bool) mpsc \<Rightarrow> 'q quic \<Rightarrow> driver \<Rightarrow> 'q \<Rightarrow> 'cc \<Rightarrow> 'cc" where
  "on_conn_close cch qc d q c =
     (case try_send cch (drv_conn_id d, peer_error qc q) c of
        Inr c' \<Rightarrow> c'
      | Inl e \<Rightarrow> c)"

subsection \<open>Reading a list of events\<close>

text \<open>
  \<open>event_data i es\<close> is what the events carry for stream \<open>i\<close>; \<open>seen_after\<close> replays what the
  events do to the set of announced streams; \<open>ever_after\<close> forgets no announcement.
  \<open>well_announced E S es\<close> checks the protocol: a stream is announced when it is not in the
  current set, with the kind its id says, and data of a client's stream comes after its
  announcement.
\<close>

fun event_data :: "u64 \<Rightarrow> driver_event list \<Rightarrow> bytes" where
  "event_data i [] = []"
| "event_data i (Data j b fin # es) = (if i = j then b else []) @ event_data i es"
| "event_data i (NewBidi j # es) = event_data i es"
| "event_data i (NewUni j # es) = event_data i es"

fun seen_after :: "driver_event list \<Rightarrow> u64 set \<Rightarrow> u64 set" where
  "seen_after [] S = S"
| "seen_after (NewBidi i # es) S = seen_after es (insert i S)"
| "seen_after (NewUni i # es) S = seen_after es (insert i S)"
| "seen_after (Data i b fin # es) S = seen_after es (if fin then S - {i} else S)"

fun ever_after :: "driver_event list \<Rightarrow> u64 set \<Rightarrow> u64 set" where
  "ever_after [] E = E"
| "ever_after (NewBidi i # es) E = ever_after es (insert i E)"
| "ever_after (NewUni i # es) E = ever_after es (insert i E)"
| "ever_after (Data i b fin # es) E = ever_after es E"

fun well_announced :: "u64 set \<Rightarrow> u64 set \<Rightarrow> driver_event list \<Rightarrow> bool" where
  "well_announced E S [] \<longleftrightarrow> True"
| "well_announced E S (NewBidi i # es) \<longleftrightarrow>
     client_initiated i \<and> announcement i = NewBidi i \<and> i \<notin> S \<and>
     well_announced (insert i E) (insert i S) es"
| "well_announced E S (NewUni i # es) \<longleftrightarrow>
     client_initiated i \<and> announcement i = NewUni i \<and> i \<notin> S \<and>
     well_announced (insert i E) (insert i S) es"
| "well_announced E S (Data i b fin # es) \<longleftrightarrow>
     (client_initiated i \<longrightarrow> i \<in> E) \<and> well_announced E (if fin then S - {i} else S) es"

lemma event_data_append [simp]: "event_data i (es @ fs) = event_data i es @ event_data i fs"
  by (induction i es rule: event_data.induct) auto

lemma seen_after_append [simp]: "seen_after (es @ fs) S = seen_after fs (seen_after es S)"
  by (induction es S rule: seen_after.induct) auto

lemma ever_after_append [simp]: "ever_after (es @ fs) E = ever_after fs (ever_after es E)"
  by (induction es E rule: ever_after.induct) auto

lemma seen_subset_ever: "S \<subseteq> E \<Longrightarrow> seen_after es S \<subseteq> ever_after es E"
  by (induction es S arbitrary: E rule: seen_after.induct) (auto simp: subset_iff)

lemma well_announced_append [simp]:
  "well_announced E S (es @ fs) \<longleftrightarrow>
     well_announced E S es \<and> well_announced (ever_after es E) (seen_after es S) fs"
  by (induction E S es rule: well_announced.induct) auto

fun event_stream :: "driver_event \<Rightarrow> u64" where
  "event_stream (NewBidi i) = i"
| "event_stream (NewUni i) = i"
| "event_stream (Data i b fin) = i"

lemma event_data_other: "i \<notin> event_stream ` set es \<Longrightarrow> event_data i es = []"
  by (induction i es rule: event_data.induct) auto

lemma event_stream_announcement [simp]: "event_stream (announcement i) = i"
  by (simp add: announcement_def)

lemma seen_after_announcement [simp]: "seen_after [announcement i] S = insert i S"
  by (simp add: announcement_def)

lemma event_data_announcement [simp]: "event_data j [announcement i] = []"
  by (simp add: announcement_def)

lemma well_announced_mono: "well_announced E S es \<Longrightarrow> E \<subseteq> E' \<Longrightarrow> well_announced E' S es"
proof (induction E S es arbitrary: E' rule: well_announced.induct)
  case (2 E S i es)
  then show ?case using "2.IH" [of "insert i E'"] by auto
next
  case (3 E S i es)
  then show ?case using "3.IH" [of "insert i E'"] by auto
qed auto

definition data_of :: "u64 \<Rightarrow> driver_event list \<Rightarrow> bool" where
  "data_of i es \<longleftrightarrow> (\<forall>e \<in> set es. \<exists>b fin. e = Data i b fin)"

lemma data_of_simps [simp]:
  "data_of i []" "data_of i (e # es) \<longleftrightarrow> (\<exists>b fin. e = Data i b fin) \<and> data_of i es"
  by (simp_all add: data_of_def)

lemma data_of_well_announced:
  "data_of i es \<Longrightarrow> client_initiated i \<longrightarrow> i \<in> E \<Longrightarrow> well_announced E S es"
  by (induction es arbitrary: S) auto

lemma data_of_streams: "data_of i es \<Longrightarrow> event_stream ` set es \<subseteq> {i}"
  by (auto simp: data_of_def)

subsection \<open>What one run of the loops delivers\<close>

text \<open>
  \<open>delivers\<close> is the contract of the read path: exactly the events \<open>es\<close>, tagged with the
  connection's id, were appended to the channel, each took one place, what a stream's events
  carry is what left the front of its unread data, and the set of announced streams is what the
  events say. Only the scratch buffer and that set changed in the driver.
\<close>

definition delivers ::
  "('ec \<Rightarrow> (u64 \<times> driver_event) list) \<Rightarrow> ('ec \<Rightarrow> nat) \<Rightarrow> ('q \<Rightarrow> u64 \<Rightarrow> bytes) \<Rightarrow>
   driver \<Rightarrow> 'ec \<Rightarrow> 'q \<Rightarrow> driver_event list \<Rightarrow> driver \<Rightarrow> 'ec \<Rightarrow> 'q \<Rightarrow> bool" where
  "delivers items room unread d c q es d' c' q' \<longleftrightarrow>
     items c' = items c @ map (Pair (drv_conn_id d)) es \<and>
     room c = room c' + length es \<and>
     (\<forall>i. unread q i = event_data i es @ unread q' i) \<and>
     (\<exists>buf. length buf = length (drv_io_worker_buf d) \<and>
        d' = d\<lparr>drv_io_worker_buf := buf,
               drv_seen_streams := seen_after es (drv_seen_streams d)\<rparr>)"

lemma delivers_refl [simp]: "delivers items room unread d c q [] d c q"
  unfolding delivers_def by (auto intro: exI [of _ "drv_io_worker_buf d"])

lemma delivers_trans:
  assumes "delivers items room unread d c q es d1 c1 q1"
    and "delivers items room unread d1 c1 q1 fs d2 c2 q2"
  shows "delivers items room unread d c q (es @ fs) d2 c2 q2"
  using assms unfolding delivers_def by (fastforce simp: append_assoc)

lemma delivers_driver:
  assumes "delivers items room unread d c q es d' c' q'"
  shows "drv_conn_id d' = drv_conn_id d"
    "drv_seen_streams d' = seen_after es (drv_seen_streams d)"
    "length (drv_io_worker_buf d') = length (drv_io_worker_buf d)"
    "drv_pending_writes d' = drv_pending_writes d" "drv_established d' = drv_established d"
  using assms by (auto simp: delivers_def)

subsection \<open>The environment of the read path\<close>

locale driver_env = ev: mpsc_fifo ech items room live + rd: quic_reader qc armed unread
  for ech :: "('ec, u64 \<times> driver_event) mpsc" and items room live
    and qc :: "'q quic" and armed unread
begin

lemma announce_cases:
  assumes "live c"
  obtains (full) "room c = 0" "client_initiated i" "i \<notin> drv_seen_streams d"
      "announce ech i d c = None"
  | (known) "client_initiated i \<longrightarrow> i \<in> drv_seen_streams d" "announce ech i d c = Some (d, c)"
  | (fresh) c1 where "client_initiated i" "i \<notin> drv_seen_streams d" "live c1"
      "announce ech i d c = Some (d\<lparr>drv_seen_streams := insert i (drv_seen_streams d)\<rparr>, c1)"
      "items c1 = items c @ [(drv_conn_id d, announcement i)]" "room c = Suc (room c1)"
proof (cases "client_initiated i \<and> i \<notin> drv_seen_streams d")
  case False
  then show thesis using known by (auto simp: announce_def)
next
  case True
  then show thesis
  proof (cases rule: ev.try_reserve_cases [of c])
    case (ok c')
    with True show thesis
      using ev.reserve_then_send [OF ok(3), of "(drv_conn_id d, announcement i)"]
      by (intro fresh [of "permit_send ech (drv_conn_id d, announcement i) c'"])
        (auto simp: announce_def)
  qed (use True assms full in \<open>auto simp: announce_def\<close>)
qed

text \<open>One round of the inner loop: the channel is full, nothing is there, or a chunk is passed on.\<close>

lemma recv_loop_cases:
  assumes "live c"
  obtains (full) "room c = 0" "recv_loop ech qc i d c q = Some (True, d, c, q)"
  | (nothing) d' c' q' where "recv_loop ech qc i d c q = Some (False, d', c', q')" "live c'"
      "delivers items room unread d c q [] d' c' q'"
      "length (armed q') \<le> length (armed q)" "set (armed q') \<subseteq> set (armed q)"
  | (chunk) b fin d1 c1 q1 where "recv_loop ech qc i d c q = recv_loop ech qc i d1 c1 q1"
      "live c1" "room c1 < room c" "delivers items room unread d c q [Data i b fin] d1 c1 q1"
      "length (armed q1) \<le> length (armed q)" "set (armed q1) \<subseteq> set (armed q)"
proof (cases rule: ev.try_reserve_cases [of c])
  case full
  then have "recv_loop ech qc i d c q = Some (True, d, c, q)" by (subst recv_loop.simps) simp
  with full(2) show thesis by (rule that(1))
next
  case closed
  then show thesis using assms by simp
next
  case (ok c1)
  obtain r buf q1 where recv: "stream_recv qc i (drv_io_worker_buf d) q = (r, buf, q1)"
    by (cases "stream_recv qc i (drv_io_worker_buf d) q") auto
  show thesis
  proof (cases r)
    case (Inl e)
    note q1 = rd.recv_Err [OF recv [unfolded Inl]] and c = ev.reserve_then_drop [OF ok(3)]
    have "recv_loop ech qc i d c q =
        Some (False, d\<lparr>drv_io_worker_buf := buf\<rparr>, permit_drop ech c1, q1)"
      using recv Inl ok by (subst recv_loop.simps) simp
    then show thesis by (rule nothing) (use q1 c in \<open>auto simp: delivers_def\<close>)
  next
    case (Inr nf)
    obtain n fin where nf: "nf = (n, fin)" by force
    let ?e = "(drv_conn_id d, Data i (take n buf) fin)"
    let ?d = "d\<lparr>drv_io_worker_buf := buf, drv_seen_streams :=
      (if fin then drv_seen_streams d - {i} else drv_seen_streams d)\<rparr>"
    note q1 = rd.recv_Ok [OF recv [unfolded Inr nf]] and c = ev.reserve_then_send [OF ok(3), of ?e]
    have "recv_loop ech qc i d c q = recv_loop ech qc i ?d (permit_send ech ?e c1) q1"
      using recv Inr nf ok q1 by (subst recv_loop.simps) simp
    moreover have "delivers items room unread d c q [Data i (take n buf) fin] ?d
        (permit_send ech ?e c1) q1"
      using q1 c by (auto simp: delivers_def)
    ultimately show thesis using q1 c by (intro chunk) auto
  qed
qed

lemma recv_loop_ends:
  assumes "live c"
  shows "\<exists>broke d' c' q' es. recv_loop ech qc i d c q = Some (broke, d', c', q') \<and> live c' \<and>
     delivers items room unread d c q es d' c' q' \<and> data_of i es \<and>
     length (armed q') \<le> length (armed q) \<and> set (armed q') \<subseteq> set (armed q) \<and>
     (broke \<longrightarrow> room c' = 0)"
  using assms
proof (induction "room c" arbitrary: c d q rule: less_induct)
  case less
  from less.prems show ?case
  proof (cases rule: recv_loop_cases [where i = i and d = d and q = q])
    case full
    then show ?thesis using less.prems by (auto intro!: exI [of _ "[]"])
  next
    case (nothing d' c' q')
    then show ?thesis by (auto intro!: exI [of _ "[]"])
  next
    case (chunk b fin d1 c1 q1)
    obtain broke d' c' q' es where rest:
      "recv_loop ech qc i d1 c1 q1 = Some (broke, d', c', q')" "live c'"
      "delivers items room unread d1 c1 q1 es d' c' q'" "data_of i es"
      "length (armed q') \<le> length (armed q1)" "set (armed q') \<subseteq> set (armed q1)"
      "broke \<longrightarrow> room c' = 0"
      using less.hyps [OF chunk(3,2), of d1 q1] by (elim exE conjE) (rule that)
    have "delivers items room unread d c q (Data i b fin # es) d' c' q'"
      using delivers_trans [OF chunk(4) rest(3)] by simp
    then show ?thesis
      using chunk(1,5,6) rest by (intro exI [of _ broke] exI [of _ d'] exI [of _ c']
        exI [of _ q'] exI [of _ "Data i b fin # es"]) auto
  qed
qed

text \<open>One round of the outer loop: announce the stream if needed, then drain it.\<close>

lemma read_stream:
  assumes "live c"
  obtains (full) "room c = 0" "announce ech i d c = None"
  | (read) d1 c1 broke d2 c2 q2 es where "announce ech i d c = Some (d1, c1)"
      "recv_loop ech qc i d1 c1 q = Some (broke, d2, c2, q2)" "live c2"
      "delivers items room unread d c q es d2 c2 q2"
      "well_announced (drv_seen_streams d) (drv_seen_streams d) es"
      "event_stream ` set es \<subseteq> {i}"
      "length (armed q2) \<le> length (armed q)" "set (armed q2) \<subseteq> set (armed q)"
      "broke \<longrightarrow> room c2 = 0"
  using assms
proof (cases rule: announce_cases [where i = i and d = d])
  case full
  then show thesis by (intro that)
next
  case known
  obtain broke d2 c2 q2 es where r: "recv_loop ech qc i d c q = Some (broke, d2, c2, q2)"
    "live c2" "delivers items room unread d c q es d2 c2 q2" "data_of i es"
    "length (armed q2) \<le> length (armed q)" "set (armed q2) \<subseteq> set (armed q)"
    "broke \<longrightarrow> room c2 = 0"
    using recv_loop_ends [OF assms, of i d q] by blast
  show thesis
    using known(1) by (intro read [OF known(2) r(1-3) _ _ r(5-7)])
      (use r(4) in \<open>auto simp: data_of_well_announced data_of_streams\<close>)
next
  case (fresh c1)
  let ?d1 = "d\<lparr>drv_seen_streams := insert i (drv_seen_streams d)\<rparr>"
  obtain broke d2 c2 q2 es where r: "recv_loop ech qc i ?d1 c1 q = Some (broke, d2, c2, q2)"
    "live c2" "delivers items room unread ?d1 c1 q es d2 c2 q2" "data_of i es"
    "length (armed q2) \<le> length (armed q)" "set (armed q2) \<subseteq> set (armed q)"
    "broke \<longrightarrow> room c2 = 0"
    using recv_loop_ends [OF fresh(3), of i ?d1 q] by blast
  have "delivers items room unread d c q [announcement i] ?d1 c1 q"
    using fresh(5,6) by (auto simp: delivers_def intro: exI [of _ "drv_io_worker_buf d"])
  then have "delivers items room unread d c q ([announcement i] @ es) d2 c2 q2"
    using r(3) by (rule delivers_trans)
  moreover have "well_announced (drv_seen_streams d) (drv_seen_streams d) ([announcement i] @ es)"
    using data_of_well_announced [OF r(4), of "insert i (drv_seen_streams d)"] fresh(1,2)
    by (auto simp: announcement_def)
  ultimately show thesis
    using r data_of_streams [OF r(4)]
    by (intro read [of ?d1 c1 broke d2 c2 q2 "announcement i # es"]) (auto simp: fresh(4))
qed

text \<open>The outer loop goes on where a round has ended.\<close>

lemma well_announced_then:
  assumes "delivers items room unread d c q es d2 c2 q2"
    and "well_announced (drv_seen_streams d) (drv_seen_streams d) es"
    and "well_announced (drv_seen_streams d2) (drv_seen_streams d2) fs"
  shows "well_announced (drv_seen_streams d) (drv_seen_streams d) (es @ fs)"
proof -
  have "well_announced (ever_after es (drv_seen_streams d)) (seen_after es (drv_seen_streams d)) fs"
    using assms(3) delivers_driver(2) [OF assms(1)] seen_subset_ever [OF subset_refl]
    by (metis well_announced_mono)
  with assms(2) show ?thesis by simp
qed

lemma read_loop_cases:
  assumes "live c"
  obtains (stops) d' c' q' es where "read_loop ech qc d c q = Some (d', c', q')" "live c'"
      "delivers items room unread d c q es d' c' q'"
      "well_announced (drv_seen_streams d) (drv_seen_streams d) es"
      "event_stream ` set es \<subseteq> set (armed q)" "set (armed q') \<subseteq> set (armed q)"
      "room c' = 0 \<or> armed q' = []"
  | (goes_on) d2 c2 q2 es where "read_loop ech qc d c q = read_loop ech qc d2 c2 q2" "live c2"
      "delivers items room unread d c q es d2 c2 q2"
      "well_announced (drv_seen_streams d) (drv_seen_streams d) es"
      "event_stream ` set es \<subseteq> set (armed q)" "set (armed q2) \<subseteq> set (armed q)"
      "length (armed q2) < length (armed q)"
proof (cases "armed q")
  case Nil
  then obtain q1 where q1: "stream_readable_next qc q = (None, q1)" "armed q1 = []" "unread q1 = unread q"
    using rd.next_None by blast
  have "read_loop ech qc d c q = Some (d, c, q1)" using q1 by (subst read_loop.simps) simp
  moreover have "delivers items room unread d c q [] d c q1"
    using delivers_refl [of items room unread d c q] q1(3) by (simp add: delivers_def)
  ultimately show thesis using assms q1(2) by (intro stops [of d c q1 "[]"]) auto
next
  case (Cons i rest)
  then obtain q1 where q1: "stream_readable_next qc q = (Some i, q1)" "armed q1 = rest" "unread q1 = unread q"
    using rd.next_Some by blast
  have from_q1: "delivers items room unread d c q es d' c' q'"
    if "delivers items room unread d c q1 es d' c' q'" for es d' c' q'
    using that q1(3) by (simp add: delivers_def)
  from assms show thesis
  proof (cases rule: read_stream [where i = i and d = d and q = q1])
    case full
    have "read_loop ech qc d c q = Some (d, c, q1)"
      using q1 full(2) by (subst read_loop.simps) simp
    with full(1) show thesis
      using assms q1(2) Cons from_q1 [OF delivers_refl] by (intro stops [of d c q1 "[]"]) auto
  next
    case (read d1 c1 broke d2 c2 q2 es)
    have "read_loop ech qc d c q = (if broke then Some (d2, c2, q2) else read_loop ech qc d2 c2 q2)"
      using q1 read(1,2) by (subst read_loop.simps) simp
    note run = this and moved = from_q1 [OF read(4)]
    have es: "event_stream ` set es \<subseteq> set (armed q)" "set (armed q2) \<subseteq> set (armed q)"
      "length (armed q2) < length (armed q)"
      using read(6-8) q1(2) Cons by auto
    show thesis
    proof (cases broke)
      case True
      with run read(9) show thesis by (intro stops [OF _ read(3) moved read(5) es(1,2)]) simp_all
    next
      case False
      with run show thesis by (intro goes_on [OF _ read(3) moved read(5) es]) simp
    qed
  qed
qed

lemma read_loop_ends:
  assumes "live c"
  shows "\<exists>d' c' q' es. read_loop ech qc d c q = Some (d', c', q') \<and> live c' \<and>
     delivers items room unread d c q es d' c' q' \<and>
     well_announced (drv_seen_streams d) (drv_seen_streams d) es \<and>
     event_stream ` set es \<subseteq> set (armed q) \<and> set (armed q') \<subseteq> set (armed q) \<and>
     (room c' = 0 \<or> armed q' = [])"
  using assms
proof (induction "length (armed q)" arbitrary: d c q rule: less_induct)
  case less
  from less.prems show ?case
  proof (cases rule: read_loop_cases [where d = d and q = q])
    case (stops d' c' q' es)
    then show ?thesis by blast
  next
    case (goes_on d2 c2 q2 es)
    obtain d' c' q' fs where fs: "read_loop ech qc d2 c2 q2 = Some (d', c', q')" "live c'"
      "delivers items room unread d2 c2 q2 fs d' c' q'"
      "well_announced (drv_seen_streams d2) (drv_seen_streams d2) fs"
      "event_stream ` set fs \<subseteq> set (armed q2)" "set (armed q') \<subseteq> set (armed q2)"
      "room c' = 0 \<or> armed q' = []"
      using less.hyps [OF goes_on(7,2), of d2] by (elim exE conjE) (rule that)
    have "event_stream ` set (es @ fs) \<subseteq> set (armed q)" "set (armed q') \<subseteq> set (armed q)"
      using goes_on(5,6) fs(5,6) by auto
    then show ?thesis
      using fs(1,2,7) goes_on(1) delivers_trans [OF goes_on(3) fs(3)]
        well_announced_then [OF goes_on(3,4) fs(4)] by metis
  qed
qed

text \<open>A stream that is not readable when \<open>process_reads\<close> starts is left alone.\<close>

lemma read_loop_not_armed:
  assumes "live c" "i \<notin> set (armed q)" "read_loop ech qc d c q = Some (d', c', q')"
  shows "unread q' i = unread q i \<and> i \<notin> set (armed q')"
  using read_loop_ends [OF assms(1), of d q] assms(2,3) event_data_other [of i]
  by (fastforce simp: delivers_def)

end

subsection \<open>Draining\<close>

locale driver_live_env = driver_env ech items room live qc armed unread +
  quic_live_reader qc armed unread
  for ech :: "('ec, u64 \<times> driver_event) mpsc" and items room live
    and qc :: "'q quic" and armed unread
begin

lemma recv_loop_drains:
  assumes "live c" "drv_io_worker_buf d \<noteq> []"
    and "recv_loop ech qc i d c q = Some (False, d', c', q')"
  shows "unread q' i = [] \<and> set (armed q) - {i} \<subseteq> set (armed q')"
  using assms
proof (induction "room c" arbitrary: c d q rule: less_induct)
  case less
  obtain c1 where c1: "try_reserve ech c = Inr c1"
    using less.prems(3) by (subst (asm) recv_loop.simps) (auto split: sum.splits)
  obtain r buf q1 where recv: "stream_recv qc i (drv_io_worker_buf d) q = (r, buf, q1)"
    by (cases "stream_recv qc i (drv_io_worker_buf d) q") auto
  have others: "set (armed q) - {i} \<subseteq> set (armed q1)"
    using recv_others [OF recv] by blast
  show ?case
  proof (cases r)
    case (Inl e)
    then have "q' = q1"
      using less.prems(3) c1 recv by (subst (asm) recv_loop.simps) simp
    moreover have "unread q i = []"
      using recv_progress [of q i "drv_io_worker_buf d"] recv Inl less.prems(2) by force
    ultimately show ?thesis
      using others rd.recv_Err recv Inl by metis
  next
    case (Inr nf)
    obtain n fin where nf: "nf = (n, fin)" by force
    let ?d = "d\<lparr>drv_io_worker_buf := buf, drv_seen_streams :=
      (if fin then drv_seen_streams d - {i} else drv_seen_streams d)\<rparr>"
    let ?c = "permit_send ech (drv_conn_id d, Data i (take n buf) fin) c1"
    have c: "Suc (room ?c) = room c" "live ?c"
      using ev.reserve_then_send [OF c1] by auto
    have q1: "n \<le> length buf" "length buf = length (drv_io_worker_buf d)"
      using rd.recv_Ok [of i "drv_io_worker_buf d" q n fin buf q1] recv Inr nf by auto
    have "recv_loop ech qc i ?d ?c q1 = Some (False, d', c', q')"
      using less.prems(3) c1 recv Inr nf q1(1) by (subst (asm) recv_loop.simps) simp
    then have "unread q' i = [] \<and> set (armed q1) - {i} \<subseteq> set (armed q')"
      using less.hyps [of ?c ?d q1] c q1(2) less.prems(2) by force
    then show ?thesis using others by blast
  qed
qed

lemma read_loop_drains:
  assumes "live c" "drv_io_worker_buf d \<noteq> []"
    and "read_loop ech qc d c q = Some (d', c', q')" "room c' \<noteq> 0" "i \<in> set (armed q)"
  shows "unread q' i = []"
  using assms
proof (induction "length (armed q)" arbitrary: d c q rule: less_induct)
  case less
  then obtain j rest where Cons: "armed q = j # rest" by (cases "armed q") auto
  then obtain q1 where q1: "stream_readable_next qc q = (Some j, q1)" "armed q1 = rest"
    "unread q1 = unread q"
    using rd.next_Some by blast
  show ?case
    using less.prems(1)
  proof (cases rule: read_stream [where i = j and d = d and q = q1])
    case full
    then have "c' = c"
      using less.prems(3) q1 by (subst (asm) read_loop.simps) simp
    with full less.prems(4) show ?thesis by simp
  next
    case (read d1 c1 broke d2 c2 q2 es)
    show ?thesis
    proof (cases broke)
      case True
      then have "c' = c2"
        using less.prems(3) q1 read by (subst (asm) read_loop.simps) simp
      with read True less.prems(4) show ?thesis by simp
    next
      case False
      then have rest: "read_loop ech qc d2 c2 q2 = Some (d', c', q')"
        using less.prems(3) q1 read by (subst (asm) read_loop.simps) simp
      have buf: "drv_io_worker_buf d2 \<noteq> []" "drv_io_worker_buf d1 \<noteq> []"
        using delivers_driver(3) [OF read(4)] less.prems(2) read(1)
        by (auto simp: announce_def split: if_splits sum.splits)
      have live1: "live c1"
        using read(1) less.prems(1) ev.reserve_then_send(3)
        by (auto simp: announce_def split: if_splits sum.splits)
      have drained: "unread q2 j = [] \<and> set (armed q1) - {j} \<subseteq> set (armed q2)"
        using recv_loop_drains [OF live1 buf(2)] read(2) False by simp
      show ?thesis
      proof (cases "i = j")
        case True
        obtain es' where "delivers items room unread d2 c2 q2 es' d' c' q'"
          using read_loop_ends [OF read(3), of d2 q2] rest by auto
        with drained True show ?thesis by (auto simp: delivers_def)
      next
        case False
        then have "i \<in> set (armed q2)"
          using less.prems(5) Cons q1(2) drained by auto
        then show ?thesis
          using less.hyps [OF _ read(3) buf(1) rest less.prems(4)] read(7) q1(2) Cons by simp
      qed
    qed
  qed
qed

end

text \<open>The reference channel with the reference connection.\<close>

interpretation ref_env: driver_live_env fifo_mpsc fifo_items fifo_room fifo_live
    ref_quic rc_armed rc_unread
  by unfold_locales


subsection \<open>Properties\<close>

text \<open>
  A concrete connection: a client opened stream 0 (bidirectional, three bytes and the FIN) and
  stream 2 (unidirectional, one byte so far); the driver has a buffer of two bytes.
\<close>

definition example_driver :: driver where
  "example_driver =
     \<lparr>drv_conn_id = 7, drv_stream_event_recv = 0, drv_established = True,
      drv_io_worker_buf = [0, 0], drv_write_notify = 1, drv_pending_writes = Map.empty,
      drv_seen_streams = {}\<rparr>"

definition example_conn :: ref_conn where
  "example_conn =
     \<lparr>rc_armed = [0, 2], rc_unread = (\<lambda>_. [])(0 := [10, 11, 12], 2 := [20]),
      rc_fin = (\<lambda>_. False)(0 := True), rc_window = (\<lambda>_. 4), rc_stopped = (\<lambda>_. False),
      rc_accepted = (\<lambda>_. []), rc_finished = (\<lambda>_. False), rc_peer_error = False\<rparr>"

lemma example_live: "fifo_live (mpsc_channel fifo_mpsc n)"
  by (simp add: fifo_mpsc_def)

text \<open>What the example run delivers, computed.\<close>

declare recv_loop.simps [code] read_loop.simps [code]

lemma example_reads:
  "map_option (\<lambda>(d, c, q). (fifo_items c, fifo_room c, drv_seen_streams d))
     (process_reads fifo_mpsc ref_quic example_driver (mpsc_channel fifo_mpsc 8) example_conn) =
   Some ([(7, NewBidi 0), (7, Data 0 [10, 11] False), (7, Data 0 [12] True), (7, NewUni 2),
          (7, Data 2 [20] False)], 3, {2})"
  by code_simp

lemma example_reads_run:
  obtains d' c' q' where
    "process_reads fifo_mpsc ref_quic example_driver (mpsc_channel fifo_mpsc 8) example_conn =
       Some (d', c', q')"
    "fifo_items c' = [(7, NewBidi 0), (7, Data 0 [10, 11] False), (7, Data 0 [12] True),
       (7, NewUni 2), (7, Data 2 [20] False)]"
    "fifo_room c' = 3" "drv_seen_streams d' = {2}"
  using example_reads
  by (cases "process_reads fifo_mpsc ref_quic example_driver (mpsc_channel fifo_mpsc 8) example_conn")
    (auto split: prod.splits)

text \<open>C10: \<open>process_reads\<close> always returns, on any live event channel and any QUIC connection that
  behave as documented, and it moves data exactly: the events it appends to the channel, all
  tagged with the connection's id, take exactly the places they need; for every stream, the
  bytes in its events are the front of what was unread, and the rest is still unread; only
  streams that were readable are touched; and it stops only because no stream is readable any
  more or because the channel is full. The announcements among the events follow the protocol
  that the server relies on: a stream is announced only if the client initiated it and it is not
  in the announced set, as \<open>NewBidi\<close> or \<open>NewUni\<close> as bit 1 of its id says; data of a client's
  stream comes after its announcement; and the set afterwards is what the announcements and FINs
  make of it. Of the driver, only that set and the contents of the scratch buffer change.\<close>

theorem process_reads_moves_data:
  assumes "driver_env ech items room live qc armed unread" "live c"
  shows "\<exists>d' c' q' es. process_reads ech qc d c q = Some (d', c', q') \<and> live c' \<and>
     items c' = items c @ map (Pair (drv_conn_id d)) es \<and>
     room c = room c' + length es \<and>
     (\<forall>i. unread q i = event_data i es @ unread q' i) \<and>
     event_stream ` set es \<subseteq> set (armed q) \<and>
     (room c' = 0 \<or> armed q' = []) \<and>
     well_announced (drv_seen_streams d) (drv_seen_streams d) es \<and>
     drv_seen_streams d' = seen_after es (drv_seen_streams d) \<and>
     reads_frame d d' \<and> length (buffer d') = length (buffer d)"
proof -
  obtain d' c' q' es where r: "read_loop ech qc d c q = Some (d', c', q')" "live c'"
    "delivers items room unread d c q es d' c' q'"
    "well_announced (drv_seen_streams d) (drv_seen_streams d) es"
    "event_stream ` set es \<subseteq> set (armed q)" "room c' = 0 \<or> armed q' = []"
    using driver_env.read_loop_ends [OF assms, of d q] by blast
  moreover have "reads_frame d d'" using read_loop_frame [OF r(1)] by simp
  ultimately show ?thesis
    using delivers_driver(2,3) [OF r(3)]
    unfolding process_reads_def buffer_def delivers_def by blast
qed

theorem process_reads_moves_data_witness:
  "\<exists>d' c' q' es.
     process_reads fifo_mpsc ref_quic example_driver (mpsc_channel fifo_mpsc 8) example_conn =
       Some (d', c', q') \<and>
     fifo_items c' = [(7, NewBidi 0), (7, Data 0 [10, 11] False), (7, Data 0 [12] True),
       (7, NewUni 2), (7, Data 2 [20] False)] \<and>
     fifo_items c' = map (Pair 7) es \<and> [10, 11, 12] = event_data 0 es @ rc_unread q' 0 \<and>
     well_announced {} {} es \<and> seen_after es {} = {2}"
proof -
  have ex: "drv_conn_id example_driver = 7" "rc_unread example_conn 0 = [10, 11, 12]"
    "drv_seen_streams example_driver = {}"
    "fifo_items (mpsc_channel fifo_mpsc 8) = ([] :: (u64 \<times> driver_event) list)"
    by (simp_all add: example_driver_def example_conn_def fifo_mpsc_def)
  obtain d' c' q' es where r:
    "process_reads fifo_mpsc ref_quic example_driver (mpsc_channel fifo_mpsc 8) example_conn =
       Some (d', c', q')"
    "fifo_items c' = fifo_items (mpsc_channel fifo_mpsc 8) @ map (Pair (drv_conn_id example_driver)) es"
    "\<forall>i. rc_unread example_conn i = event_data i es @ rc_unread q' i"
    "well_announced (drv_seen_streams example_driver) (drv_seen_streams example_driver) es"
    "drv_seen_streams d' = seen_after es (drv_seen_streams example_driver)"
    using process_reads_moves_data [OF ref_env.driver_env_axioms example_live [of 8],
        of example_driver example_conn] by (elim exE conjE) (rule that)
  moreover have "fifo_items c' = [(7, NewBidi 0), (7, Data 0 [10, 11] False), (7, Data 0 [12] True),
       (7, NewUni 2), (7, Data 2 [20] False)] \<and> drv_seen_streams d' = {2}"
    using r(1) by (rule_tac example_reads_run) simp
  moreover have "[10, 11, 12] = event_data 0 es @ rc_unread q' 0"
    using spec [OF r(3), of 0] ex(2) by simp
  ultimately show ?thesis
    unfolding ex by (intro exI [of _ d'] exI [of _ c'] exI [of _ q'] exI [of _ es]) simp
qed

text \<open>C20: On a connection without reset streams, with a non-empty buffer, \<open>process_reads\<close> leaves no
  byte behind: if the event channel still has room afterwards, every stream that was readable
  has been read to its end and all its bytes are in the channel, in order.\<close>

theorem process_reads_drains:
  assumes "driver_live_env ech items room live qc armed unread" "live c"
    and "drv_io_worker_buf d \<noteq> []"
    and "process_reads ech qc d c q = Some (d', c', q')" "room c' \<noteq> 0" "i \<in> set (armed q)"
  shows "unread q' i = [] \<and>
     (\<exists>es. items c' = items c @ map (Pair (drv_conn_id d)) es \<and> event_data i es = unread q i)"
proof -
  note env = driver_live_env.axioms(1) [OF assms(1)]
  have drained: "unread q' i = []"
    using driver_live_env.read_loop_drains [OF assms(1,2,3) _ assms(5,6)] assms(4)
    by (simp add: process_reads_def)
  obtain es where "delivers items room unread d c q es d' c' q'"
    using driver_env.read_loop_ends [OF env assms(2), of d q] assms(4)
    unfolding process_reads_def by force
  then have "items c' = items c @ map (Pair (drv_conn_id d)) es"
    "unread q i = event_data i es @ unread q' i"
    by (simp_all add: delivers_def)
  with drained show ?thesis by auto
qed

theorem process_reads_drains_witness:
  "\<exists>d' c' q' es.
     process_reads fifo_mpsc ref_quic example_driver (mpsc_channel fifo_mpsc 8) example_conn =
       Some (d', c', q') \<and> rc_unread q' 0 = [] \<and>
     fifo_items c' = map (Pair 7) es \<and> event_data 0 es = [10, 11, 12]"
proof -
  have ex: "drv_conn_id example_driver = 7" "rc_unread example_conn 0 = [10, 11, 12]"
    "fifo_items (mpsc_channel fifo_mpsc 8) = ([] :: (u64 \<times> driver_event) list)"
    by (simp_all add: example_driver_def example_conn_def fifo_mpsc_def)
  have side: "drv_io_worker_buf example_driver \<noteq> []" "0 \<in> set (rc_armed example_conn)"
    by (simp_all add: example_driver_def example_conn_def)
  show ?thesis
  proof (rule example_reads_run)
    fix d' c' q'
    assume r: "process_reads fifo_mpsc ref_quic example_driver (mpsc_channel fifo_mpsc 8)
        example_conn = Some (d', c', q')" "fifo_room c' = 3"
    then show ?thesis
      using process_reads_drains [OF ref_env.driver_live_env_axioms example_live side(1) r(1) _ side(2)]
      unfolding ex by auto
  qed
qed

text \<open>
  \<open>reads_on ech qc passes d q\<close>: one \<open>process_reads\<close> after the other. Before each of them the
  connection is changed by \<open>f\<close> (what the network, the writes and everything else did to it) and the
  driver by \<open>g\<close>, and the event channel is in a state \<open>c\<close> of its own.

  \<open>not_reported armed unread i f\<close>: \<open>f\<close> does not put stream \<open>i\<close> on the list of readable streams, and
  the bytes of the stream that were unread stay where they are.
\<close>

fun reads_on ::
  "('ec, u64 \<times> driver_event) mpsc \<Rightarrow> 'q quic \<Rightarrow> ('ec \<times> ('q \<Rightarrow> 'q) \<times> (driver \<Rightarrow> driver)) list \<Rightarrow>
   driver \<Rightarrow> 'q \<Rightarrow> (driver \<times> 'q) option" where
  "reads_on ech qc [] d q = Some (d, q)"
| "reads_on ech qc ((c, f, g) # passes) d q =
     (case process_reads ech qc (g d) c (f q) of
        None \<Rightarrow> None
      | Some (d', c', q') \<Rightarrow> reads_on ech qc passes d' q')"

definition not_reported ::
  "('q \<Rightarrow> u64 list) \<Rightarrow> ('q \<Rightarrow> u64 \<Rightarrow> bytes) \<Rightarrow> u64 \<Rightarrow> ('q \<Rightarrow> 'q) \<Rightarrow> bool" where
  "not_reported armed unread i f \<longleftrightarrow>
     (\<forall>q. i \<notin> set (armed q) \<longrightarrow>
        i \<notin> set (armed (f q)) \<and> (\<exists>more. unread (f q) i = unread q i @ more))"

lemma reads_on_not_armed:
  assumes "driver_env ech items room live qc armed unread" "i \<notin> set (armed q)"
    and "\<And>c f g. (c, f, g) \<in> set passes \<Longrightarrow> live c \<and> not_reported armed unread i f"
  shows "\<exists>d' q' more. reads_on ech qc passes d q = Some (d', q') \<and> i \<notin> set (armed q') \<and>
     unread q' i = unread q i @ more"
  using assms(2,3)
proof (induction passes arbitrary: d q)
  case Nil
  then show ?case by simp
next
  case (Cons pass passes)
  obtain c f g where pass: "pass = (c, f, g)" by (cases pass)
  then have c: "live c" "not_reported armed unread i f"
    using Cons.prems(2) [of c f g] by simp_all
  then obtain more where f: "i \<notin> set (armed (f q))" "unread (f q) i = unread q i @ more"
    using Cons.prems(1) by (auto simp: not_reported_def)
  obtain d1 c1 q1 where r: "process_reads ech qc (g d) c (f q) = Some (d1, c1, q1)"
    using driver_env.read_loop_ends [OF assms(1) c(1), of "g d" "f q"]
    unfolding process_reads_def by blast
  then have q1: "unread q1 i = unread (f q) i" "i \<notin> set (armed q1)"
    using driver_env.read_loop_not_armed [OF assms(1) c(1) f(1)] by (simp_all add: process_reads_def)
  have later: "live c2 \<and> not_reported armed unread i f2" if "(c2, f2, g2) \<in> set passes" for c2 f2 g2
    using Cons.prems(2) [of c2 f2 g2] that by simp
  have "\<exists>d' q' more. reads_on ech qc passes d1 q1 = Some (d', q') \<and> i \<notin> set (armed q') \<and>
      unread q' i = unread q1 i @ more"
    by (rule Cons.IH [OF q1(2)]) (rule later)
  then obtain d' q' more' where "reads_on ech qc passes d1 q1 = Some (d', q')" "i \<notin> set (armed q')"
    "unread q' i = unread q1 i @ more'" by blast
  then show ?case using pass r q1(1) f(2) by simp
qed

text \<open>C27: Back-pressure loses a wake-up. If the event channel is full when \<open>process_reads\<close> starts,
  the first readable stream has already been taken from the connection's list of readable
  streams when the loop is left, and nothing was read. From then on its data stays unread: however
  many times \<open>process_reads\<close> runs, whatever happens to connection and driver in between, and
  however much room the channel has each time, these bytes remain in the connection, as long as
  the connection does not report the stream as readable anew.\<close>

theorem process_reads_full_strands_stream:
  assumes "driver_env ech items room live qc armed unread" "live c" "room c = 0"
    and "armed q = i # rest" "i \<notin> set rest"
  shows "\<exists>q1. process_reads ech qc d c q = Some (d, c, q1) \<and> armed q1 = rest \<and>
     unread q1 = unread q \<and>
     (\<forall>passes d1. (\<forall>(c2, f, g) \<in> set passes. live c2 \<and> not_reported armed unread i f) \<longrightarrow>
        (\<exists>d2 q2 more. reads_on ech qc passes d1 q1 = Some (d2, q2) \<and> i \<notin> set (armed q2) \<and>
           unread q2 i = unread q i @ more))"
proof -
  obtain q1 where q1: "stream_readable_next qc q = (Some i, q1)" "armed q1 = rest"
    "unread q1 = unread q"
    using quic_reader.next_Some [OF driver_env.axioms(2) [OF assms(1)] assms(4)] by blast
  have full: "try_reserve ech c = Inl Full"
    using mpsc_fifo.try_reserve_full [OF driver_env.axioms(1) [OF assms(1)] assms(2,3)] .
  have "process_reads ech qc d c q = Some (d, c, q1)"
    using q1(1) full unfolding process_reads_def
    by (subst read_loop.simps) (simp add: announce_def recv_loop.simps)
  moreover have "\<exists>d2 q2 more. reads_on ech qc passes d1 q1 = Some (d2, q2) \<and> i \<notin> set (armed q2) \<and>
      unread q2 i = unread q i @ more"
    if "\<forall>(c2, f, g) \<in> set passes. live c2 \<and> not_reported armed unread i f" for passes d1
    using reads_on_not_armed [OF assms(1), of i q1 passes d1] that q1 assms(5) by fastforce
  ultimately show ?thesis using q1(2,3) by blast
qed

text \<open>Two more passes with an empty channel; before the second a byte of stream 6 arrives.\<close>

theorem process_reads_full_strands_stream_witness:
  "\<exists>q1 d2 q2 more. process_reads fifo_mpsc ref_quic example_driver
       \<lparr>fifo_items = [(7, NewBidi 4)], fifo_room = 0, fifo_live = True\<rparr> example_conn =
       Some (example_driver, \<lparr>fifo_items = [(7, NewBidi 4)], fifo_room = 0, fifo_live = True\<rparr>, q1) \<and>
     reads_on fifo_mpsc ref_quic
       [(mpsc_channel fifo_mpsc 8, id, id),
        (mpsc_channel fifo_mpsc 8,
         \<lambda>q. q\<lparr>rc_armed := [6], rc_unread := (rc_unread q)(6 := [9])\<rparr>, id)]
       example_driver q1 = Some (d2, q2) \<and> rc_unread q2 0 = [10, 11, 12] @ more"
proof -
  have ex: "rc_unread example_conn 0 = [10, 11, 12]" "rc_armed example_conn = [0, 2]"
    "(0 :: u64) \<notin> set [2]"
    by (simp_all add: example_conn_def)
  have passes: "\<forall>(c2, f, g) \<in> set [(mpsc_channel fifo_mpsc 8, id, id),
        (mpsc_channel fifo_mpsc 8,
         \<lambda>q. q\<lparr>rc_armed := [6], rc_unread := (rc_unread q)(6 := [9])\<rparr>, id)].
      fifo_live c2 \<and> not_reported rc_armed rc_unread 0 f"
    using example_live [of 8] by (simp add: not_reported_def)
  obtain q1 where q1: "process_reads fifo_mpsc ref_quic example_driver
       \<lparr>fifo_items = [(7, NewBidi 4)], fifo_room = 0, fifo_live = True\<rparr> example_conn =
       Some (example_driver, \<lparr>fifo_items = [(7, NewBidi 4)], fifo_room = 0, fifo_live = True\<rparr>, q1)"
    "\<forall>passes d1. (\<forall>(c2, f, g) \<in> set passes. fifo_live c2 \<and> not_reported rc_armed rc_unread 0 f) \<longrightarrow>
        (\<exists>d2 q2 more. reads_on fifo_mpsc ref_quic passes d1 q1 = Some (d2, q2) \<and>
           0 \<notin> set (rc_armed q2) \<and> rc_unread q2 0 = rc_unread example_conn 0 @ more)"
    using process_reads_full_strands_stream [OF ref_env.driver_env_axioms, of
        "\<lparr>fifo_items = [(7, NewBidi 4)], fifo_room = 0, fifo_live = True\<rparr>" example_conn 0 "[2]"
        example_driver] ex(2,3) by auto
  obtain d2 q2 more where "reads_on fifo_mpsc ref_quic
       [(mpsc_channel fifo_mpsc 8, id, id),
        (mpsc_channel fifo_mpsc 8,
         \<lambda>q. q\<lparr>rc_armed := [6], rc_unread := (rc_unread q)(6 := [9])\<rparr>, id)]
       example_driver q1 = Some (d2, q2)" "rc_unread q2 0 = rc_unread example_conn 0 @ more"
    using mp [OF spec [OF spec [OF q1(2)], where x = example_driver] passes] by (elim exE conjE) (rule that)
  with q1(1) ex(1) show ?thesis by auto
qed

end
