(* ===== verification/Read_Path.thy ===== *)
theory Read_Path
  imports Server_Correct Driver_Reads
begin

text \<open>
  The way of a client's bytes through the whole extension: from the unread data of the QUIC
  connection, through the driver's \<open>process_reads\<close>, the shared event channel and the passes of
  \<open>tick\<close>, into the calls of the \<open>on_data\<close> callback of their stream.
\<close>

subsection \<open>What an \<open>on_data\<close> slot was called with\<close>

definition data_of_call :: "addr \<Rightarrow> effect \<Rightarrow> bytes" where
  "data_of_call a e = (case e of CalledData b cb d fin \<Rightarrow> (if b = a then d else []) | _ \<Rightarrow> [])"

definition data_bytes :: "addr \<Rightarrow> 'wc store \<Rightarrow> bytes" where
  "data_bytes a s = concat (map (data_of_call a) (st_trace s))"

lemma data_bytes_simps [simp]:
  "data_bytes a (emit e s) = data_bytes a s @ data_of_call a e"
  "data_bytes a (s\<lparr>st_slots := x\<rparr>) = data_bytes a s"
  "data_bytes a (s\<lparr>st_maps := y\<rparr>) = data_bytes a s"
  "data_bytes a (s\<lparr>st_chans := z\<rparr>) = data_bytes a s"
  "data_bytes a (register_stream m i s) = data_bytes a s"
  "data_bytes a (driver_does wch op s) = data_bytes a s"
  by (simp_all add: data_bytes_def)

lemma data_of_call_simps [simp]:
  "data_of_call a (CalledData b cb d fin) = (if b = a then d else [])"
  "data_of_call a (CalledStream z obj) = []"
  "data_of_call a (CalledClose b z flag) = []"
  "data_of_call a (Notified n) = []"
  "data_of_call a (Started drv) = []"
  by (simp_all add: data_of_call_def)

text \<open>PHP code calls no callback itself.\<close>

interpretation no_data: php_invariant wch callable "\<lambda>s. data_bytes a s = bs"
  for wch :: "('wc, stream_writer) mpsc" and callable a bs
  by unfold_locales auto

lemma run_prog_data_bytes: "run_prog wch pe p held s = Some s' \<Longrightarrow> data_bytes a s' = data_bytes a s"
  using no_data.run_prog_inv [OF refl] by blast

lemma fire_on_close_data_bytes:
  "fire_on_close wch pe flag b held s = Some s' \<Longrightarrow> data_bytes a s' = data_bytes a s"
  by (auto simp: step_simps dest: run_prog_data_bytes
      split: option.splits if_splits)

lemma call_stream_callback_data_bytes:
  "call_stream_callback wch pe cb obj held s = Some s' \<Longrightarrow> data_bytes a s' = data_bytes a s"
  by (auto simp: step_simps dest: run_prog_data_bytes
      split: option.splits if_splits)

lemma call_on_data_data_bytes:
  "call_on_data wch pe slot data fin held s = Some s' \<Longrightarrow>
     data_bytes a s' = data_bytes a s @
       (if slot = a \<and> (\<exists>cb. st_slots s a = Some cb \<and> pe_callable pe cb) then data else [])"
  by (auto simp: step_simps dest: run_prog_data_bytes
      split: option.splits if_splits)

lemma dispatch_data_bytes:
  assumes "dispatch_driver_event wch pe cid ev sv s = Some s'"
    and "sv_connections sv cid = Some state"
  shows "data_bytes a s' = data_bytes a s @
     (case ev of
        Data j d fin \<Rightarrow>
          (if (\<exists>sl. st_maps s (cs_callbacks state) j = Some sl \<and> ss_on_data sl = a) \<and>
              (\<exists>cb. st_slots s a = Some cb \<and> pe_callable pe cb) then d else [])
      | _ \<Rightarrow> [])"
  using assms
  by (auto simp: dispatch_driver_event_def callbacks.dispatch_new_stream_eq dispatch_data_eq
      dest!: call_stream_callback_data_bytes [of _ _ _ _ _ _ _ a]
        fire_on_close_data_bytes [of _ _ _ _ _ _ _ a] call_on_data_data_bytes [of _ _ _ _ _ _ _ _ a]
      split: driver_event.splits option.splits if_splits)

subsection \<open>A stream that is being received\<close>

text \<open>
  \<open>unshared a m i s\<close>: slot \<open>a\<close> is allocated, and no stream but \<open>i\<close> of map \<open>m\<close> has it as its
  \<open>on_data\<close>. \<open>gone a s\<close>: no stream has it any more.
\<close>

definition unshared :: "addr \<Rightarrow> addr \<Rightarrow> u64 \<Rightarrow> 'wc store \<Rightarrow> bool" where
  "unshared a m i s \<longleftrightarrow> a < st_next s \<and>
     (\<forall>n j sl. st_maps s n j = Some sl \<longrightarrow> ss_on_data sl = a \<longrightarrow> n = m \<and> j = i)"

definition gone :: "addr \<Rightarrow> 'wc store \<Rightarrow> bool" where
  "gone a s \<longleftrightarrow> a < st_next s \<and> (\<forall>n j sl. st_maps s n j = Some sl \<longrightarrow> ss_on_data sl \<noteq> a)"

interpretation unshared: callback_invariant wch callable "unshared a m i"
  for wch :: "('wc, stream_writer) mpsc" and callable a m i
  by unfold_locales (auto simp: unshared_def map_le_def dom_def split: if_splits; metis)+

interpretation gone: callback_invariant wch callable "gone a"
  for wch :: "('wc, stream_writer) mpsc" and callable a
  by unfold_locales (auto simp: gone_def map_le_def dom_def split: if_splits; metis)+

interpretation gone: connection_invariant wch callable "gone a"
  for wch :: "('wc, stream_writer) mpsc" and callable a
proof unfold_locales
  fix s :: "'wc store" and cid peer st drv s'
  assume g: "gone a s" and b: "build wch cid peer s = ((st, drv), s')"
  show "gone a (emit (Started drv) s')"
    using g build_simps [OF b] by (auto simp: gone_def map_le_def)
qed

text \<open>
  \<open>receiving pe m i sl cb s\<close>: stream \<open>i\<close> of map \<open>m\<close> is registered with \<open>sl\<close>, whose \<open>on_data\<close>
  holds the callable \<open>cb\<close> and is its own. \<open>keeps_off pe a m\<close>: no callback replaces the callable in
  slot \<open>a\<close> or opens a stream of the connection with map \<open>m\<close>.
\<close>

definition receiving ::
  "'wc php_engine \<Rightarrow> addr \<Rightarrow> u64 \<Rightarrow> stream_slots \<Rightarrow> zval \<Rightarrow> 'wc store \<Rightarrow> bool" where
  "receiving pe m i sl cb s \<longleftrightarrow>
     st_maps s m i = Some sl \<and> st_slots s (ss_on_data sl) = Some cb \<and> pe_callable pe cb \<and>
     unshared (ss_on_data sl) m i s"

definition keeps_off :: "'wc php_engine \<Rightarrow> addr \<Rightarrow> addr \<Rightarrow> bool" where
  "keeps_off pe a m \<longleftrightarrow>
     (\<forall>s cb vs. prog_avoids (pe_callable pe) {SlotMutex a, MapMutex m} (pe_script pe s cb vs))"

lemma receiving_emit [simp]: "receiving pe m i sl cb (emit e s) = receiving pe m i sl cb s"
  by (simp add: receiving_def unshared_def)

lemma receiving_run:
  assumes "keeps_off pe (ss_on_data sl) m" "receiving pe m i sl cb s"
    and "run_prog wch pe (pe_script pe s0 z vs) held s = Some s'"
  shows "receiving pe m i sl cb s'"
proof -
  have off: "prog_avoids (pe_callable pe) {SlotMutex (ss_on_data sl), MapMutex m} (pe_script pe s0 z vs)"
    using assms(1) by (simp add: keeps_off_def)
  note frame = run_prog_frame [OF off assms(3)]
  have r: "st_maps s m i = Some sl" "st_slots s (ss_on_data sl) = Some cb" "pe_callable pe cb"
    "unshared (ss_on_data sl) m i s"
    using assms(2) by (simp_all add: receiving_def)
  moreover have "unshared (ss_on_data sl) m i s'"
    using unshared.run_prog_inv [OF refl assms(3) r(4)] .
  moreover have "ss_on_data sl < st_next s"
    using r(4) by (simp add: unshared_def)
  ultimately show ?thesis
    using frame(1) [of m] frame(2) [of "ss_on_data sl"] by (simp add: receiving_def)
qed

lemma receiving_fire_on_close:
  assumes "keeps_off pe (ss_on_data sl) m" "receiving pe m i sl cb s"
    and "fire_on_close wch pe flag b held s = Some s'"
  shows "receiving pe m i sl cb s'"
  using assms(2,3) receiving_run [OF assms(1), where s = "emit e s" for e]
  by (fastforce simp: step_simps split: option.splits if_splits)

lemma receiving_call_stream_callback:
  assumes "keeps_off pe (ss_on_data sl) m" "receiving pe m i sl cb s"
    and "call_stream_callback wch pe z obj held s = Some s'"
  shows "receiving pe m i sl cb s'"
  using assms(2,3) receiving_run [OF assms(1), where s = "emit e s" for e]
  by (fastforce simp: step_simps split: option.splits if_splits)

lemma receiving_call_on_data:
  assumes "keeps_off pe (ss_on_data sl) m" "receiving pe m i sl cb s"
    and "call_on_data wch pe slot data fin held s = Some s'"
  shows "receiving pe m i sl cb s'"
  using assms(2,3) receiving_run [OF assms(1), where s = "emit e s" for e]
  by (fastforce simp: step_simps split: option.splits if_splits)

lemma receiving_remove:
  assumes "receiving pe m i sl cb s" "j \<noteq> i"
  shows "receiving pe m i sl cb (s\<lparr>st_maps := (st_maps s)(m := (st_maps s m)(j := None))\<rparr>)"
  using assms unshared.inv_remove [of "ss_on_data sl" m i s "(st_maps s m)(j := None)" m]
  by (auto simp: receiving_def map_le_def split: if_splits)

lemma receiving_register:
  assumes "receiving pe m i sl cb s" "j \<noteq> i"
  shows "receiving pe m i sl cb (register_stream m j s)"
proof -
  have "ss_on_data sl < st_next s" using assms(1) by (simp add: receiving_def unshared_def)
  then show ?thesis
    using assms unshared.inv_register by (auto simp: receiving_def)
qed

text \<open>An event of another stream, or data of the stream without FIN, leaves the stream as it is.\<close>

lemma receiving_dispatch:
  assumes "keeps_off pe (ss_on_data sl) (cs_callbacks state)" "sv_connections sv cid = Some state"
    and "receiving pe (cs_callbacks state) i sl cb s"
    and "event_stream ev \<noteq> i \<or> (\<exists>d. ev = Data i d False)"
    and "dispatch_driver_event wch pe cid ev sv s = Some s'"
  shows "receiving pe (cs_callbacks state) i sl cb s'"
proof (cases ev)
  case (Data j d fin)
  let ?m = "cs_callbacks state"
  obtain s1 where s1: "(case st_maps s ?m j of
      Some sl \<Rightarrow> call_on_data wch pe (ss_on_data sl) d fin {} s | None \<Rightarrow> Some s) = Some s1"
    "(case (if fin then st_maps s1 ?m j else None) of
       None \<Rightarrow> Some s1
     | Some sl \<Rightarrow> fire_on_close wch pe True (ss_on_close sl) {}
         (s1\<lparr>st_maps := (st_maps s1)(?m := (st_maps s1 ?m)(j := None))\<rparr>)) = Some s'"
    using assms(2,5) Data
    by (auto simp: dispatch_driver_event_def dispatch_data_eq split: option.splits)
  have r1: "receiving pe ?m i sl cb s1"
    using s1(1) receiving_call_on_data [OF assms(1,3)] assms(3) by (auto split: option.splits)
  show ?thesis
  proof (cases "if fin then st_maps s1 ?m j else None")
    case None
    with s1(2) r1 show ?thesis by simp
  next
    case (Some sl')
    then have "j \<noteq> i" using assms(4) Data by (auto split: if_splits)
    with Some s1(2) show ?thesis
      using receiving_fire_on_close [OF assms(1) receiving_remove [OF r1]] by simp
  qed
next
  case (NewBidi j)
  then show ?thesis
    using assms receiving_call_stream_callback [OF assms(1) receiving_register [OF assms(3)]]
    by (simp add: dispatch_driver_event_def callbacks.dispatch_new_stream_eq)
next
  case (NewUni j)
  then show ?thesis
    using assms receiving_call_stream_callback [OF assms(1) receiving_register [OF assms(3)]]
    by (simp add: dispatch_driver_event_def callbacks.dispatch_new_stream_eq)
qed

text \<open>The FIN takes the stream out of the map, so its slot is gone for good.\<close>

lemma gone_after_fin:
  assumes "keeps_off pe (ss_on_data sl) (cs_callbacks state)" "sv_connections sv cid = Some state"
    and "receiving pe (cs_callbacks state) i sl cb s"
    and "dispatch_driver_event wch pe cid (Data i d True) sv s = Some s'"
  shows "gone (ss_on_data sl) s'"
proof -
  let ?m = "cs_callbacks state"
  obtain s1 where s1: "call_on_data wch pe (ss_on_data sl) d True {} s = Some s1"
    "(case st_maps s1 ?m i of
       None \<Rightarrow> Some s1
     | Some sl \<Rightarrow> fire_on_close wch pe True (ss_on_close sl) {}
         (s1\<lparr>st_maps := (st_maps s1)(?m := (st_maps s1 ?m)(i := None))\<rparr>)) = Some s'"
    using assms(2-4)
    by (auto simp: dispatch_driver_event_def dispatch_data_eq receiving_def split: option.splits)
  have r1: "receiving pe ?m i sl cb s1"
    using receiving_call_on_data [OF assms(1,3) s1(1)] .
  then have "gone (ss_on_data sl) (s1\<lparr>st_maps := (st_maps s1)(?m := (st_maps s1 ?m)(i := None))\<rparr>)"
    by (auto simp: receiving_def unshared_def gone_def split: if_splits)
  moreover have "st_maps s1 ?m i = Some sl" using r1 by (simp add: receiving_def)
  ultimately show ?thesis
    using s1(2) gone.fire_on_close_inv [OF refl] by simp
qed

subsection \<open>A list of events\<close>

text \<open>
  \<open>fin_ends i es\<close>: nothing of stream \<open>i\<close> comes after its FIN. \<open>well_ended i es\<close>: moreover
  stream \<open>i\<close> is not announced, as long as the driver has it in its set.
\<close>

fun fin_ends :: "u64 \<Rightarrow> driver_event list \<Rightarrow> bool" where
  "fin_ends i [] \<longleftrightarrow> True"
| "fin_ends i (ev # es) \<longleftrightarrow>
     (if \<exists>d. ev = Data i d True then i \<notin> event_stream ` set es else fin_ends i es)"

fun well_ended :: "u64 \<Rightarrow> driver_event list \<Rightarrow> bool" where
  "well_ended i [] \<longleftrightarrow> True"
| "well_ended i (ev # es) \<longleftrightarrow>
     (if \<exists>d. ev = Data i d True then i \<notin> event_stream ` set es
      else (event_stream ev \<noteq> i \<or> (\<exists>d. ev = Data i d False)) \<and> well_ended i es)"

lemma announced_well_ended:
  assumes "well_announced E S es" "i \<in> S" "fin_ends i es"
  shows "well_ended i es"
  using assms
  by (induction E S es rule: well_announced.induct) (auto split: if_splits)

lemma gone_all:
  assumes "data_safe pe" "close_safe pe {}" "sv_connections sv cid = Some state" "gone a s"
  shows "\<exists>s'. dispatch_all wch pe sv (map (Pair cid) es) s = Some s' \<and>
     data_bytes a s' = data_bytes a s"
  using assms(4)
proof (induction es arbitrary: s)
  case Nil
  then show ?case by simp
next
  case (Cons ev es)
  obtain s1 where s1: "dispatch_driver_event wch pe cid ev sv s = Some s1"
    using dispatch_driver_event_returns [OF assms(1,2)] by blast
  have "data_bytes a s1 = data_bytes a s"
    using dispatch_data_bytes [OF s1 assms(3), of a] Cons.prems
    by (auto simp: gone_def split: driver_event.splits)
  moreover have "gone a s1"
    using gone.dispatch_driver_event_inv [OF refl s1 Cons.prems] .
  ultimately show ?case using Cons.IH s1 by fastforce
qed

lemma receiving_all:
  assumes "data_safe pe" "close_safe pe {}" "sv_connections sv cid = Some state"
    and "keeps_off pe (ss_on_data sl) (cs_callbacks state)"
    and "receiving pe (cs_callbacks state) i sl cb s" "well_ended i es"
  shows "\<exists>s'. dispatch_all wch pe sv (map (Pair cid) es) s = Some s' \<and>
     data_bytes (ss_on_data sl) s' = data_bytes (ss_on_data sl) s @ event_data i es"
  using assms(5,6)
proof (induction es arbitrary: s)
  case Nil
  then show ?case by simp
next
  case (Cons ev es)
  let ?a = "ss_on_data sl"
  obtain s1 where s1: "dispatch_driver_event wch pe cid ev sv s = Some s1"
    using dispatch_driver_event_returns [OF assms(1,2)] by blast
  have step: "data_bytes ?a s1 = data_bytes ?a s @ event_data i [ev]"
    using dispatch_data_bytes [OF s1 assms(3), of ?a] Cons.prems(1)
    by (cases ev) (auto simp: receiving_def unshared_def)
  have rest: "event_data i (ev # es) = event_data i [ev] @ event_data i es"
    using event_data_append [of i "[ev]" es] by simp
  show ?case
  proof (cases "\<exists>d. ev = Data i d True")
    case True
    then obtain d where d: "ev = Data i d True" by blast
    then have "gone ?a s1"
      using gone_after_fin [OF assms(4,3) Cons.prems(1)] s1 by blast
    moreover have "event_data i es = []"
      using Cons.prems(2) d by (intro event_data_other) simp
    ultimately show ?thesis
      using gone_all [OF assms(1-3), of ?a s1 wch es] s1 step rest by auto
  next
    case False
    then have "receiving pe (cs_callbacks state) i sl cb s1" "well_ended i es"
      using receiving_dispatch [OF assms(4,3) Cons.prems(1) _ s1] Cons.prems(2) by auto
    then show ?thesis using Cons.IH [of s1] s1 step rest by auto
  qed
qed

subsection \<open>From the QUIC connection to the callback\<close>

text \<open>C1: What a client sends on a stream reaches the stream's \<open>on_data\<close> callback. Take a run of
  \<open>process_reads\<close> into an empty event channel, on an announced stream that PHP has installed a
  callback for, where the stream's FIN, if it is read, is its last event. Then as many passes of
  \<open>tick\<close> as events were sent, whatever other events, close messages and connections come in
  meanwhile, all end, and the bytes that the callback was called with are exactly the bytes by
  which the stream's unread data got shorter, in order, none lost or repeated. The callbacks must
  keep off the slot of this \<open>on_data\<close>, off the slots they run under and not open streams of this
  connection.\<close>

theorem client_bytes_reach_on_data:
  assumes "driver_env ech items room live qc armed unread" "live c" "items c = []"
    and "process_reads ech qc d c q = Some (d', c', q')"
    and "items c' = map (Pair (drv_conn_id d)) es" "i \<in> drv_seen_streams d" "fin_ends i es"
    and "sv_events sv = c'" "sv_connections sv (drv_conn_id d) = Some state"
    and "receiving pe (cs_callbacks state) i sl cb s"
    and "keeps_off pe (ss_on_data sl) (cs_callbacks state)" "data_safe pe" "close_safe pe {}"
    and "length inps = length es"
    and "\<And>inp c. inp \<in> set inps \<Longrightarrow> live c \<Longrightarrow>
           live (ti_events inp c) \<and> (\<exists>new. items (ti_events inp c) = items c @ new)"
  shows "\<exists>sv' s' bs. tick wch ech cch pe ord has_efd inps sv s = Some (Looping, sv', s') \<and>
     unread q i = bs @ unread q' i \<and>
     data_bytes (ss_on_data sl) s' = data_bytes (ss_on_data sl) s @ bs"
proof -
  note fifo = driver_env.axioms(1) [OF assms(1)]
  obtain es' where es': "live c'" "delivers items room unread d c q es' d' c' q'"
    "well_announced (drv_seen_streams d) (drv_seen_streams d) es'"
    using driver_env.read_loop_ends [OF assms(1,2), of d q] assms(4)
    unfolding process_reads_def by force
  have "es' = es"
    using es'(2) assms(3,5) by (auto simp: delivers_def inj_on_def dest: map_injective)
  then have unread: "unread q i = event_data i es @ unread q' i"
    and "well_ended i es"
    using es'(2,3) announced_well_ended assms(6,7) by (auto simp: delivers_def)
  then obtain s' where s': "dispatch_all wch pe sv (map (Pair (drv_conn_id d)) es) s = Some s'"
    "data_bytes (ss_on_data sl) s' = data_bytes (ss_on_data sl) s @ event_data i es"
    using receiving_all [OF assms(12,13,9,11,10)] by blast
  have items: "items (sv_events sv) = map (Pair (drv_conn_id d)) es @ []"
    and live: "live (sv_events sv)" and len: "length inps = length (map (Pair (drv_conn_id d)) es)"
    using assms(5,8,14) es'(1) by simp_all
  have "map_option (\<lambda>(status, sv', s'). (status, s')) (tick wch ech cch pe ord has_efd inps sv s) =
      Some (Looping, s')"
    by (rule trans [OF tick_dispatch_all [OF fifo live items len assms(15)]]) (simp_all add: s'(1))
  then show ?thesis
    using unread s'(2) by (auto split: prod.splits)
qed

theorem client_bytes_reach_on_data_witness:
  "\<exists>d' c' q' sv' s' bs.
     process_reads fifo_mpsc ref_quic (example_driver\<lparr>drv_seen_streams := {0}\<rparr>)
       (mpsc_channel fifo_mpsc 8) example_conn = Some (d', c', q') \<and>
     tick fifo_mpsc fifo_mpsc fifo_mpsc example_engine sorted_list_of_set True
       (replicate 4 \<lparr>ti_events = id, ti_closes = id, ti_accept = None, ti_readable = True\<rparr>)
       (demo_server\<lparr>sv_events := c'\<rparr>) demo_store = Some (Looping, sv', s') \<and>
     [10, 11, 12] = bs @ rc_unread q' 0 \<and> data_bytes 3 s' = bs"
proof -
  let ?d = "example_driver\<lparr>drv_seen_streams := {0}\<rparr>"
  let ?es = "[Data 0 [10, 11] False, Data 0 [12] True, NewUni 2, Data 2 [20] False]"
  let ?inps = "replicate 4 \<lparr>ti_events = id, ti_closes = id, ti_accept = None, ti_readable = True\<rparr>"
  have "map_option (\<lambda>(d, c, q). fifo_items c)
      (process_reads fifo_mpsc ref_quic ?d (mpsc_channel fifo_mpsc 8) example_conn) =
    Some (map (Pair 7) ?es)"
    by code_simp
  then obtain d' c' q' where run: "process_reads fifo_mpsc ref_quic ?d (mpsc_channel fifo_mpsc 8)
      example_conn = Some (d', c', q')" "fifo_items c' = map (Pair (drv_conn_id ?d)) ?es"
    by (auto simp: example_driver_def)
  have empty: "fifo_items (mpsc_channel fifo_mpsc 8) = ([] :: (u64 \<times> driver_event) list)"
    by (simp add: fifo_mpsc_def)
  have facts: "drv_conn_id ?d = 7" "0 \<in> drv_seen_streams ?d"
    "sv_connections (demo_server\<lparr>sv_events := c'\<rparr>) 7 = Some demo_state"
    "rc_unread example_conn 0 = [10, 11, 12]" "fin_ends 0 ?es" "ss_on_data demo_slots = 3"
    "data_bytes 3 demo_store = []"
    by (simp_all add: example_driver_def demo_server_def example_conn_def demo_slots_def
        demo_store_def data_bytes_def)
  have receiving: "receiving example_engine (cs_callbacks demo_state) 0 demo_slots (Zval 10) demo_store"
    by (auto simp: receiving_def unshared_def demo_store_def demo_state_def demo_slots_def
        example_engine_def split: if_splits)
  have off: "keeps_off (example_engine :: stream_writer fifo php_engine) (ss_on_data demo_slots)
      (cs_callbacks demo_state)"
    by (simp add: keeps_off_def example_engine_def)
  show ?thesis
    using client_bytes_reach_on_data [OF ref_env.driver_env_axioms example_live empty run facts(2,5),
        of "demo_server\<lparr>sv_events := c'\<rparr>" demo_state example_engine demo_slots "Zval 10"
        demo_store ?inps fifo_mpsc fifo_mpsc sorted_list_of_set True, OF _ _ receiving off
        example_engine_safe] facts run(1)
    by (intro exI [of _ d'] exI [of _ c'] exI [of _ q']) simp
qed

end
