(* ===== verification/Driver_Writes.thy ===== *)
theory Driver_Writes
  imports Store Channel Quic
begin

text \<open>
  The second half of \<open>src/quiche/driver.rs\<close>: \<open>process_writes\<close>, which moves what PHP queued
  in the per-connection write channel into per-stream queues and from there into the QUIC
  connection. \<open>ord\<close> is the order in which \<open>HashMap::retain\<close> visits the streams.

  \<open>flush_stream\<close> is the body of the closure given to \<open>retain\<close>: it returns whether the
  entry is kept, and the queue that is left.
\<close>

partial_function (option) drain_channel ::
  "('wc, stream_writer) mpsc \<Rightarrow> (u64 \<rightharpoonup> (bytes \<times> bool) list) \<Rightarrow> 'wc \<Rightarrow>
   ((u64 \<rightharpoonup> (bytes \<times> bool) list) \<times> 'wc) option" where
  "drain_channel wch pending c =
     (case try_recv wch c of
        Inl e \<Rightarrow> Some (pending, c)
      | Inr ((stream_id, data, fin), c1) \<Rightarrow>
          (let bytes = (case data of Some b \<Rightarrow> b | None \<Rightarrow> []);
               queue = (case pending stream_id of Some q \<Rightarrow> q | None \<Rightarrow> [])
           in drain_channel wch (pending(stream_id \<mapsto> queue @ [(bytes, fin)])) c1))"

fun flush_stream ::
  "'q quic \<Rightarrow> u64 \<Rightarrow> (bytes \<times> bool) list \<Rightarrow> 'q \<Rightarrow>
   ((bool \<times> (bytes \<times> bool) list) \<times> 'q) option" where
  "flush_stream qc i [] q = Some ((False, []), q)"
| "flush_stream qc i ((b, fin) # rest) q =
     (case stream_send qc i b fin q of
        (Inr n, q1) \<Rightarrow>
          if n = length b then flush_stream qc i rest q1
          else if n < length b then Some ((True, (drop n b, fin) # rest), q1)
          else None
      | (Inl QDone, q1) \<Rightarrow> Some ((True, (b, fin) # rest), q1)
      | (Inl (QOther e), q1) \<Rightarrow> flush_stream qc i rest q1)"

fun retain_pending ::
  "'q quic \<Rightarrow> u64 list \<Rightarrow> (u64 \<rightharpoonup> (bytes \<times> bool) list) \<Rightarrow> 'q \<Rightarrow>
   ((u64 \<rightharpoonup> (bytes \<times> bool) list) \<times> 'q) option" where
  "retain_pending qc [] pending q = Some (pending, q)"
| "retain_pending qc (i # is) pending q =
     (case pending i of
        None \<Rightarrow> retain_pending qc is pending q
      | Some queue \<Rightarrow>
          (case flush_stream qc i queue q of
             None \<Rightarrow> None
           | Some ((keep, queue'), q1) \<Rightarrow>
               retain_pending qc is (pending(i := (if keep then Some queue' else None))) q1))"

definition process_writes ::
  "('wc, stream_writer) mpsc \<Rightarrow> 'q quic \<Rightarrow> (u64 set \<Rightarrow> u64 list) \<Rightarrow> driver \<Rightarrow> 'wc \<Rightarrow> 'q \<Rightarrow>
   (driver \<times> 'wc \<times> 'q) option" where
  "process_writes wch qc ord d c q =
     do {
       (pending, c1) \<leftarrow> drain_channel wch (drv_pending_writes d) c;
       (pending', q1) \<leftarrow> retain_pending qc (ord (dom pending)) pending q;
       Some (d\<lparr>drv_pending_writes := pending'\<rparr>, c1, q1)
     }"

subsection \<open>Chunks, bytes and FINs\<close>

text \<open>
  \<open>queue_of m i\<close> is what waits for stream \<open>i\<close>, \<open>chunks_for i ws\<close> what the messages
  \<open>ws\<close> of the write channel add to it. In a well-formed queue the FIN comes last.
\<close>

definition queue_of :: "(u64 \<rightharpoonup> (bytes \<times> bool) list) \<Rightarrow> u64 \<Rightarrow> (bytes \<times> bool) list" where
  "queue_of m i = (case m i of Some q \<Rightarrow> q | None \<Rightarrow> [])"

fun chunk_of :: "stream_writer \<Rightarrow> bytes \<times> bool" where
  "chunk_of (i, data, fin) = ((case data of Some b \<Rightarrow> b | None \<Rightarrow> []), fin)"

definition chunks_for :: "u64 \<Rightarrow> stream_writer list \<Rightarrow> (bytes \<times> bool) list" where
  "chunks_for i ws = map chunk_of (filter (\<lambda>w. fst w = i) ws)"

definition queue_bytes :: "(bytes \<times> bool) list \<Rightarrow> bytes" where
  "queue_bytes qu = concat (map fst qu)"

fun fin_last :: "(bytes \<times> bool) list \<Rightarrow> bool" where
  "fin_last [] \<longleftrightarrow> True"
| "fin_last ((b, fin) # rest) \<longleftrightarrow> (fin \<longrightarrow> rest = []) \<and> fin_last rest"

definition has_fin :: "(bytes \<times> bool) list \<Rightarrow> bool" where
  "has_fin qu \<longleftrightarrow> True \<in> snd ` set qu"

lemma queue_bytes_simps [simp]:
  "queue_bytes [] = []" "queue_bytes ((b, fin) # qu) = b @ queue_bytes qu"
  "queue_bytes (qu @ qu') = queue_bytes qu @ queue_bytes qu'"
  by (simp_all add: queue_bytes_def)

lemma has_fin_simps [simp]:
  "\<not> has_fin []" "has_fin ((b, fin) # qu) \<longleftrightarrow> fin \<or> has_fin qu"
  by (auto simp: has_fin_def)

lemma queue_of_upd [simp]:
  "queue_of (m(i \<mapsto> qu)) j = (if i = j then qu else queue_of m j)"
  "queue_of (m(i := None)) j = (if i = j then [] else queue_of m j)"
  by (simp_all add: queue_of_def)

lemma queue_of_None [simp]: "m i = None \<Longrightarrow> queue_of m i = []"
  by (simp add: queue_of_def)

lemma queue_of_Some [simp]: "m i = Some qu \<Longrightarrow> queue_of m i = qu"
  by (simp add: queue_of_def)

lemma chunks_for_Cons [simp]:
  "chunks_for i [] = []"
  "chunks_for i (w # ws) = (if fst w = i then [chunk_of w] else []) @ chunks_for i ws"
  by (simp_all add: chunks_for_def)

subsection \<open>Draining the write channel\<close>

locale write_channel = mpsc_fifo wch items room live
  for wch :: "('wc, stream_writer) mpsc" and items room live
begin

lemma drain_channel_ends:
  assumes "live c"
  shows "\<exists>pending' c'. drain_channel wch pending c = Some (pending', c') \<and> live c' \<and>
     items c' = [] \<and> (\<forall>i. queue_of pending' i = queue_of pending i @ chunks_for i (items c)) \<and>
     (finite (dom pending) \<longrightarrow> finite (dom pending'))"
  using assms
proof (induction "length (items c)" arbitrary: c pending rule: less_induct)
  case less
  show ?case
  proof (cases rule: try_recv_cases [OF less.prems])
    case (1 w c1)
    obtain i data fin where w: "w = (i, data, fin)" by (cases w) auto
    let ?p = "pending(i \<mapsto> queue_of pending i @ [chunk_of w])"
    have "length (items c1) < length (items c)" using 1(2) by simp
    then obtain p' c' where rest: "drain_channel wch ?p c1 = Some (p', c')" "live c'"
      "items c' = []" "\<forall>j. queue_of p' j = queue_of ?p j @ chunks_for j (items c1)"
      "finite (dom ?p) \<longrightarrow> finite (dom p')"
      using less.hyps 1(4) by blast
    have "drain_channel wch pending c = drain_channel wch ?p c1"
      using 1(1) w by (subst drain_channel.simps) (simp add: queue_of_def Let_def)
    with rest 1(2) w show ?thesis by auto
  next
    case (2 e)
    then show ?thesis
      using less.prems by (subst drain_channel.simps) simp
  qed
qed

end

subsection \<open>Flushing\<close>

text \<open>\<open>r\<close> is what the closure of \<open>retain\<close> left of the queue \<open>qu\<close> in some connection state.\<close>

definition attempted ::
  "'q quic \<Rightarrow> u64 \<Rightarrow> (bytes \<times> bool) list \<Rightarrow> (bytes \<times> bool) list option \<Rightarrow> bool" where
  "attempted qc i qu r \<longleftrightarrow>
     (\<exists>qa keep qu' qb. flush_stream qc i qu qa = Some ((keep, qu'), qb) \<and>
        r = (if keep then Some qu' else None))"

text \<open>Whatever \<open>stream_send\<close> answers, the closure returns and touches its own stream only.\<close>

context quic_sender
begin

lemma flush_stream_ends:
  "\<exists>keep qu' q'. flush_stream qc i qu q = Some ((keep, qu'), q') \<and>
     (keep \<longleftrightarrow> qu' \<noteq> []) \<and> length qu' \<le> length qu \<and>
     (\<forall>j. j \<noteq> i \<longrightarrow> accepted q' j = accepted q j \<and> finished q' j = finished q j)"
proof (induction qu arbitrary: q)
  case Nil
  then show ?case by (intro exI [of _ False]) simp
next
  case (Cons chunk rest)
  obtain b fin where chunk: "chunk = (b, fin)" by force
  obtain r q1 where send: "stream_send qc i b fin q = (r, q1)" by force
  show ?case
  proof (cases r)
    case (Inl e)
    with send have "accepted q1 = accepted q" "finished q1 = finished q"
      using send_Err by auto
    then show ?thesis
      using Cons.IH [of q1] send Inl chunk by (cases e) (auto simp: le_Suc_eq)
  next
    case (Inr n)
    with send have "n \<le> length b" "\<forall>j. j \<noteq> i \<longrightarrow> accepted q1 j = accepted q j"
      "\<forall>j. j \<noteq> i \<longrightarrow> finished q1 j = finished q j"
      using send_Ok [of i b fin q n q1] by auto
    then show ?thesis
      using Cons.IH [of q1] send Inr chunk by (cases "n = length b") (auto simp: le_Suc_eq)
  qed
qed

text \<open>
  Every entry that \<open>retain\<close> visits is attempted, whatever happened to the entries before it,
  and an entry that is kept is not empty.
\<close>

lemma retain_pending_ends:
  assumes "distinct ks"
  shows "\<exists>m' q'. retain_pending qc ks m q = Some (m', q') \<and>
     (\<forall>i. i \<notin> set ks \<longrightarrow> m' i = m i \<and> accepted q' i = accepted q i \<and> finished q' i = finished q i) \<and>
     (\<forall>i \<in> set ks. m' i \<noteq> Some []) \<and>
     (\<forall>i \<in> set ks. \<forall>qu. m i = Some qu \<longrightarrow> attempted qc i qu (m' i)) \<and>
     dom m' \<subseteq> dom m"
  using assms
proof (induction ks arbitrary: m q)
  case Nil
  then show ?case by simp
next
  case (Cons i ks)
  show ?case
  proof (cases "m i")
    case None
    with Cons show ?thesis
      using Cons.IH [of m q] by fastforce
  next
    case (Some qu)
    obtain keep qu' q1 where fl: "flush_stream qc i qu q = Some ((keep, qu'), q1)"
      "keep \<longleftrightarrow> qu' \<noteq> []"
      "\<forall>j. j \<noteq> i \<longrightarrow> accepted q1 j = accepted q j \<and> finished q1 j = finished q j"
      using flush_stream_ends by blast
    let ?m = "m(i := (if keep then Some qu' else None))"
    obtain m' q' where rest: "retain_pending qc ks ?m q1 = Some (m', q')"
      "\<forall>j. j \<notin> set ks \<longrightarrow>
         m' j = ?m j \<and> accepted q' j = accepted q1 j \<and> finished q' j = finished q1 j"
      "\<forall>j \<in> set ks. m' j \<noteq> Some []"
      "\<forall>j \<in> set ks. \<forall>qv. ?m j = Some qv \<longrightarrow> attempted qc j qv (m' j)"
      "dom m' \<subseteq> dom ?m"
      using Cons.IH [of ?m q1] distinct.simps(2) [THEN iffD1, OF Cons.prems] by blast
    have m'i: "m' i = (if keep then Some qu' else None)"
      using rest(2) Cons.prems by simp
    then have "attempted qc i qu (m' i)"
      unfolding attempted_def using fl(1) by blast
    moreover have "attempted qc j qv (m' j)" if "j \<in> set ks" "m j = Some qv" for j qv
    proof -
      have "?m j = Some qv" using that Cons.prems by auto
      with rest(4) that show ?thesis by blast
    qed
    moreover have "dom m' \<subseteq> dom m"
      using rest(5) Some by (auto split: if_splits)
    moreover have "retain_pending qc (i # ks) m q = Some (m', q')"
      using Some fl rest(1) by simp
    moreover have "m' i \<noteq> Some []"
      using m'i fl(2) by simp
    moreover have "m' j = m j \<and> accepted q' j = accepted q j \<and> finished q' j = finished q j"
      if "j \<notin> set (i # ks)" for j
      using that rest(2) fl(3) by simp
    ultimately show ?thesis
      using Some rest(3) by (intro exI [of _ m'] exI [of _ q']) (simp del: retain_pending.simps)
  qed
qed

end

text \<open>
  \<open>conserves accepted finished writable i (q, qu) (q', qu')\<close>: nothing of stream \<open>i\<close> was lost,
  duplicated or reordered. What is accepted followed by what still waits is what was accepted
  followed by what waited, the same holds for the FIN, and only a FIN that was sent ends the
  stream.
\<close>

fun conserves ::
  "('q \<Rightarrow> u64 \<Rightarrow> bytes) \<Rightarrow> ('q \<Rightarrow> u64 \<Rightarrow> bool) \<Rightarrow> ('q \<Rightarrow> u64 \<Rightarrow> bool) \<Rightarrow> u64 \<Rightarrow>
   'q \<times> (bytes \<times> bool) list \<Rightarrow> 'q \<times> (bytes \<times> bool) list \<Rightarrow> bool" where
  "conserves accepted finished writable i (q, qu) (q', qu') \<longleftrightarrow>
     accepted q' i @ queue_bytes qu' = accepted q i @ queue_bytes qu \<and>
     (finished q' i \<or> has_fin qu' \<longleftrightarrow> finished q i \<or> has_fin qu) \<and>
     fin_last qu' \<and> (has_fin qu' \<longrightarrow> has_fin qu) \<and>
     (writable q' i \<or> qu' = [] \<and> has_fin qu)"

context quic_open_sender
begin

text \<open>A writable stream is conserved.\<close>

lemma flush_stream_writable:
  assumes "writable q i" "fin_last qu"
    and "flush_stream qc i qu q = Some ((keep, qu'), q')"
  shows "conserves accepted finished writable i (q, qu) (q', qu')"
  using assms
proof (induction qu arbitrary: q)
  case Nil
  then show ?case by simp
next
  case (Cons chunk rest)
  obtain b fin where chunk: "chunk = (b, fin)" by force
  obtain r q1 where send: "stream_send qc i b fin q = (r, q1)" by force
  show ?case
  proof (cases r)
    case (Inl e)
    with send Cons.prems(1) have "e = QDone" "writable q1 i" "accepted q1 = accepted q"
      "finished q1 = finished q"
      using writable_Err send_Err by auto
    then show ?thesis using Cons.prems send Inl chunk by auto
  next
    case (Inr n)
    with send have ok: "n \<le> length b" "accepted q1 i = accepted q i @ take n b"
      "finished q1 i \<longleftrightarrow> finished q i \<or> fin \<and> n = length b"
      using send_Ok [of i b fin q n q1] by auto
    show ?thesis
    proof (cases "n = length b")
      case False
      then have "writable q1 i"
        using writable_Ok [OF Cons.prems(1)] send Inr by simp
      with False show ?thesis
        using Cons.prems send Inr chunk ok by auto
    next
      case True
      then have fl: "flush_stream qc i rest q1 = Some ((keep, qu'), q')"
        using Cons.prems(3) send Inr chunk by simp
      show ?thesis
      proof (cases fin)
        case False
        then have "writable q1 i"
          using writable_Ok [OF Cons.prems(1)] send Inr by simp
        then show ?thesis
          using Cons.IH [of q1] fl Cons.prems(2) chunk ok True False by auto
      next
        case True
        then have "rest = []" using Cons.prems(2) chunk by simp
        then show ?thesis
          using fl chunk ok \<open>n = length b\<close> True by auto
      qed
    qed
  qed
qed

lemma flush_stream_other:
  assumes "flush_stream qc i qu q = Some (r, q')" "j \<noteq> i"
  shows "writable q' j = writable q j"
  using assms(1)
proof (induction qu arbitrary: q)
  case Nil
  then show ?case by simp
next
  case (Cons chunk rest)
  obtain b fin where chunk: "chunk = (b, fin)" by force
  obtain a q1 where send: "stream_send qc i b fin q = (a, q1)" by force
  then have "writable q1 j = writable q j" using writable_other assms(2) by blast
  with Cons send chunk show ?case
    by (auto split: sum.splits if_splits quic_error.splits)
qed

lemma retain_pending_other:
  assumes "retain_pending qc ks m q = Some (m', q')" "i \<notin> set ks"
  shows "writable q' i = writable q i"
  using assms
  by (induction ks arbitrary: m q)
    (auto split: option.splits prod.splits dest: flush_stream_other)

lemma retain_pending_writable:
  assumes "distinct ks" "retain_pending qc ks m q = Some (m', q')"
    and "writable q i" "fin_last (queue_of m i)"
  shows "conserves accepted finished writable i (q, queue_of m i) (q', queue_of m' i)"
  using assms
proof (induction ks arbitrary: m q)
  case Nil
  then show ?case by simp
next
  case (Cons k ks)
  show ?case
  proof (cases "m k")
    case None
    with Cons show ?thesis by simp
  next
    case (Some qu)
    obtain keep qu' q1 where fl: "flush_stream qc k qu q = Some ((keep, qu'), q1)"
      "keep \<longleftrightarrow> qu' \<noteq> []"
      "\<forall>j. j \<noteq> k \<longrightarrow> accepted q1 j = accepted q j \<and> finished q1 j = finished q j"
      using flush_stream_ends by blast
    let ?m = "m(k := (if keep then Some qu' else None))"
    have rest: "retain_pending qc ks ?m q1 = Some (m', q')"
      using Cons.prems(2) Some fl by simp
    have queue_k: "queue_of ?m k = qu'"
      using fl(2) by (auto simp: queue_of_def)
    show ?thesis
    proof (cases "i = k")
      case False
      then have "queue_of ?m i = queue_of m i" by (simp add: queue_of_def)
      then show ?thesis
        using Cons.IH [OF _ rest] Cons.prems(1,3,4) False fl(3) flush_stream_other [OF fl(1) False]
        by (simp del: fun_upd_apply)
    next
      case True
      have "m' i = ?m i \<and> accepted q' i = accepted q1 i \<and> finished q' i = finished q1 i"
        using retain_pending_ends [of ks ?m q1] rest Cons.prems(1) True by auto
      then have "queue_of m' i = qu'" "accepted q' i = accepted q1 i" "finished q' i = finished q1 i"
        using queue_k True by (auto simp: queue_of_def)
      moreover have "writable q' i = writable q1 i"
        using retain_pending_other [OF rest] Cons.prems(1) True by simp
      ultimately show ?thesis
        using flush_stream_writable [OF _ _ fl(1)] Cons.prems(3,4) True Some by simp
    qed
  qed
qed

text \<open>A stream with nothing to send is left alone.\<close>

lemma retain_pending_idle:
  assumes "retain_pending qc ks m q = Some (m', q')" "queue_of m i = []"
  shows "queue_of m' i = [] \<and> accepted q' i = accepted q i \<and> finished q' i = finished q i"
  using assms
proof (induction ks arbitrary: m q)
  case Nil
  then show ?case by simp
next
  case (Cons k ks)
  show ?case
  proof (cases "m k")
    case None
    with Cons show ?thesis by simp
  next
    case (Some qu)
    obtain keep qu' q1 where fl: "flush_stream qc k qu q = Some ((keep, qu'), q1)"
      "keep \<longleftrightarrow> qu' \<noteq> []" "length qu' \<le> length qu"
      "\<forall>j. j \<noteq> k \<longrightarrow> accepted q1 j = accepted q j \<and> finished q1 j = finished q j"
      using flush_stream_ends by blast
    let ?m = "m(k := (if keep then Some qu' else None))"
    have rest: "retain_pending qc ks ?m q1 = Some (m', q')"
      using Cons.prems(1) Some fl by simp
    have idle: "queue_of ?m i = []" and same: "i = k \<Longrightarrow> q1 = q"
      using Cons.prems(2) Some fl by (auto simp: queue_of_def)
    show ?thesis
      using Cons.IH [OF rest idle] same fl(4) by (cases "i = k") (simp_all del: fun_upd_apply)
  qed
qed

end

subsection \<open>Observing the calls\<close>

text \<open>
  \<open>logged_quic qc\<close> is the connection \<open>qc\<close> with an observer: it answers as \<open>qc\<close> does and
  notes every call of \<open>stream_send\<close>, with the stream, the chunk and the answer.
  \<open>calls_for i log\<close> are the calls for stream \<open>i\<close>.
\<close>

type_synonym send_call = "(bytes \<times> bool) \<times> (quic_error + nat)"

definition logged_quic :: "'q quic \<Rightarrow> ('q \<times> (u64 \<times> send_call) list) quic" where
  "logged_quic qc =
     \<lparr>stream_readable_next = (\<lambda>(q, log). case stream_readable_next qc q of (r, q') \<Rightarrow> (r, (q', log))),
      stream_recv = (\<lambda>i buf (q, log).
        case stream_recv qc i buf q of (r, buf', q') \<Rightarrow> (r, buf', (q', log))),
      stream_send = (\<lambda>i b fin (q, log).
        case stream_send qc i b fin q of (r, q') \<Rightarrow> (r, (q', log @ [(i, ((b, fin), r))]))),
      peer_error = (\<lambda>(q, log). peer_error qc q)\<rparr>"

definition calls_for :: "u64 \<Rightarrow> (u64 \<times> send_call) list \<Rightarrow> send_call list" where
  "calls_for i log = map snd (filter (\<lambda>c. fst c = i) log)"

text \<open>
  \<open>tried qu calls left\<close>: \<open>calls\<close> is a proper attempt to send the queue \<open>qu\<close>, and \<open>left\<close>
  what has to wait. The chunks were given to the connection one after the other from the first
  on; those before the last call were accepted completely or refused for good. Either the last
  chunk was reached in this way and nothing waits, or the last call was answered with \<open>Done\<close>
  or accepted a part, and what waits is the rest of its chunk and the chunks after it.
\<close>

definition tried :: "(bytes \<times> bool) list \<Rightarrow> send_call list \<Rightarrow> (bytes \<times> bool) list \<Rightarrow> bool" where
  "tried qu calls left \<longleftrightarrow>
     (\<exists>gone rest. qu = map fst gone @ rest \<and>
        (\<forall>(chunk, r) \<in> set gone. r = Inr (length (fst chunk)) \<or> (\<exists>e. r = Inl (QOther e))) \<and>
        (rest = [] \<and> calls = gone \<and> left = [] \<or>
         (\<exists>b fin more r. rest = (b, fin) # more \<and> calls = gone @ [((b, fin), r)] \<and>
            (r = Inl QDone \<and> left = rest \<or>
             (\<exists>n < length b. r = Inr n \<and> left = (drop n b, fin) # more)))))"

lemma calls_for_simps [simp]:
  "calls_for i [] = []"
  "calls_for i (log @ log') = calls_for i log @ calls_for i log'"
  "calls_for i (map (Pair j) calls) = (if i = j then calls else [])"
  by (auto simp: calls_for_def filter_map o_def)

lemma tried_Nil [simp]: "tried [] [] []"
  by (simp add: tried_def)

lemma tried_gone:
  assumes "tried qu calls left" "r = Inr (length b) \<or> (\<exists>e. r = Inl (QOther e))"
  shows "tried ((b, fin) # qu) (((b, fin), r) # calls) left"
proof -
  obtain gone rest where g: "qu = map fst gone @ rest"
    "\<forall>(chunk, r) \<in> set gone. r = Inr (length (fst chunk)) \<or> (\<exists>e. r = Inl (QOther e))"
    "rest = [] \<and> calls = gone \<and> left = [] \<or>
         (\<exists>b fin more r. rest = (b, fin) # more \<and> calls = gone @ [((b, fin), r)] \<and>
            (r = Inl QDone \<and> left = rest \<or>
             (\<exists>n < length b. r = Inr n \<and> left = (drop n b, fin) # more)))"
    using assms(1) unfolding tried_def by blast
  then show ?thesis
    unfolding tried_def using assms(2)
    by (intro exI [of _ "((b, fin), r) # gone"] exI [of _ rest]) auto
qed

lemma tried_stops:
  "tried ((b, fin) # qu) [((b, fin), Inl QDone)] ((b, fin) # qu)"
  "n < length b \<Longrightarrow> tried ((b, fin) # qu) [((b, fin), Inr n)] ((drop n b, fin) # qu)"
  unfolding tried_def by (intro exI [of _ "[]"] exI [of _ "(b, fin) # qu"]; simp)+

lemma tried_first:
  assumes "tried (chunk # qu) calls left"
  shows "\<exists>r calls'. calls = (chunk, r) # calls'"
  using assms unfolding tried_def by (auto simp: Cons_eq_append_conv)

lemma flush_stream_logged:
  assumes "flush_stream qc i qu q = Some ((keep, left), q')"
  shows "\<exists>calls. tried qu calls left \<and> (keep \<longleftrightarrow> left \<noteq> []) \<and>
     flush_stream (logged_quic qc) i qu (q, log) = Some ((keep, left), (q', log @ map (Pair i) calls))"
  using assms
proof (induction qu arbitrary: q log)
  case Nil
  then show ?case by (intro exI [of _ "[]"]) simp
next
  case (Cons chunk rest)
  obtain b fin where chunk: "chunk = (b, fin)" by force
  obtain r q1 where send: "stream_send qc i b fin q = (r, q1)" by force
  have log: "stream_send (logged_quic qc) i b fin (q, log) = (r, (q1, log @ [(i, ((b, fin), r))]))"
    using send by (simp add: logged_quic_def)
  show ?case
  proof (cases "r = Inr (length b) \<or> (\<exists>e. r = Inl (QOther e))")
    case True
    then have "flush_stream qc i rest q1 = Some ((keep, left), q')"
      using Cons.prems send chunk by auto
    from Cons.IH [OF this, of "log @ [(i, ((b, fin), r))]"]
    obtain calls where c: "tried rest calls left" "keep \<longleftrightarrow> left \<noteq> []"
      "flush_stream (logged_quic qc) i rest (q1, log @ [(i, ((b, fin), r))]) =
         Some ((keep, left), (q', (log @ [(i, ((b, fin), r))]) @ map (Pair i) calls))"
      by blast
    show ?thesis
      using tried_gone [OF c(1) True, of fin] c(2,3) log True chunk
      by (intro exI [of _ "((b, fin), r) # calls"]) auto
  next
    case False
    then consider (blocked) "r = Inl QDone" | (part) n where "r = Inr n" "n \<noteq> length b"
      by (cases r rule: sum.exhaust) (auto intro: quic_error.exhaust)
    then show ?thesis
    proof cases
      case blocked
      then show ?thesis
        using Cons.prems send log chunk tried_stops(1) [of b fin rest]
        by (intro exI [of _ "[((b, fin), Inl QDone)]"]) auto
    next
      case part
      then have "n < length b"
        using Cons.prems send chunk by (auto split: if_splits)
      then show ?thesis
        using Cons.prems send log chunk part tried_stops(2) [of n b fin rest]
        by (intro exI [of _ "[((b, fin), Inr n)]"]) auto
    qed
  qed
qed

lemma retain_pending_logged:
  assumes "distinct ks" "retain_pending qc ks m q = Some (m', q')"
  shows "\<exists>log'. retain_pending (logged_quic qc) ks m (q, log) = Some (m', (q', log @ log')) \<and>
     (\<forall>i. i \<notin> set ks \<longrightarrow> m' i = m i \<and> calls_for i log' = []) \<and>
     (\<forall>i \<in> set ks. tried (queue_of m i) (calls_for i log') (queue_of m' i))"
  using assms
proof (induction ks arbitrary: m q log)
  case Nil
  then show ?case by simp
next
  case (Cons k ks)
  have ks: "distinct ks" "k \<notin> set ks" using Cons.prems(1) by simp_all
  show ?case
  proof (cases "m k")
    case None
    then obtain log' where l: "retain_pending (logged_quic qc) ks m (q, log) = Some (m', (q', log @ log'))"
      "\<forall>i. i \<notin> set ks \<longrightarrow> m' i = m i \<and> calls_for i log' = []"
      "\<forall>i \<in> set ks. tried (queue_of m i) (calls_for i log') (queue_of m' i)"
      using Cons.IH [OF ks(1), of m q log] Cons.prems(2) by auto
    then show ?thesis
      using None ks(2) by (intro exI [of _ log']) simp
  next
    case (Some qu)
    then obtain keep left q1 where fl: "flush_stream qc k qu q = Some ((keep, left), q1)"
      "retain_pending qc ks (m(k := (if keep then Some left else None))) q1 = Some (m', q')"
      using Cons.prems(2) by (auto split: option.splits)
    let ?m = "m(k := (if keep then Some left else None))"
    obtain calls where c: "tried qu calls left" "keep \<longleftrightarrow> left \<noteq> []"
      "flush_stream (logged_quic qc) k qu (q, log) =
         Some ((keep, left), (q1, log @ map (Pair k) calls))"
      using flush_stream_logged [OF fl(1)] by blast
    obtain log' where l:
      "retain_pending (logged_quic qc) ks ?m (q1, log @ map (Pair k) calls) =
         Some (m', (q', (log @ map (Pair k) calls) @ log'))"
      "\<forall>i. i \<notin> set ks \<longrightarrow> m' i = ?m i \<and> calls_for i log' = []"
      "\<forall>i \<in> set ks. tried (queue_of ?m i) (calls_for i log') (queue_of m' i)"
      using Cons.IH [OF ks(1) fl(2), of "log @ map (Pair k) calls"] by blast
    have "queue_of m' k = left"
      using l(2) ks(2) c(2) by (auto simp: queue_of_def)
    moreover have "queue_of ?m j = queue_of m j" if "j \<in> set ks" for j
      using that ks(2) by (auto simp: queue_of_def)
    moreover have "k \<noteq> j" if "j \<in> set ks" for j using that ks(2) by blast
    ultimately show ?thesis
      using Some c(1,3) l ks(2) by (intro exI [of _ "map (Pair k) calls @ log'"]) auto
  qed
qed

subsection \<open>The environment of the write path\<close>

locale write_env = wr: write_channel wch items room live +
  sn: quic_open_sender qc accepted finished writable
  for wch :: "('wc, stream_writer) mpsc" and items room live
    and qc :: "'q quic" and accepted finished writable
begin

lemma process_writes_ends:
  assumes "live c" "finite (dom (drv_pending_writes d))" "hash_order ord"
  shows "\<exists>d' c' q'. process_writes wch qc ord d c q = Some (d', c', q') \<and> live c' \<and>
     items c' = [] \<and> finite (dom (drv_pending_writes d')) \<and>
     (\<forall>i. drv_pending_writes d' i \<noteq> Some []) \<and>
     d' = d\<lparr>drv_pending_writes := drv_pending_writes d'\<rparr> \<and>
     (\<forall>i. let qu = queue_of (drv_pending_writes d) i @ chunks_for i (items c);
              qu' = queue_of (drv_pending_writes d') i
          in (writable q i \<longrightarrow> fin_last qu \<longrightarrow>
               conserves accepted finished writable i (q, qu) (q', qu')) \<and>
             (qu = [] \<longrightarrow>
               qu' = [] \<and> accepted q' i = accepted q i \<and> finished q' i = finished q i))"
proof -
  obtain p c' where drain: "drain_channel wch (drv_pending_writes d) c = Some (p, c')" "live c'"
    "items c' = []"
    "\<forall>i. queue_of p i = queue_of (drv_pending_writes d) i @ chunks_for i (items c)"
    "finite (dom p)"
    using wr.drain_channel_ends [OF assms(1)] assms(2) by blast
  have ks: "distinct (ord (dom p))" "set (ord (dom p)) = dom p"
    using hash_orderD [OF assms(3) drain(5)] by auto
  obtain m' q' where ret: "retain_pending qc (ord (dom p)) p q = Some (m', q')"
    "\<forall>i. i \<notin> dom p \<longrightarrow> m' i = p i" "\<forall>i \<in> dom p. m' i \<noteq> Some []" "dom m' \<subseteq> dom p"
    using sn.retain_pending_ends [OF ks(1), of p q] ks(2) by auto
  have "process_writes wch qc ord d c q = Some (d\<lparr>drv_pending_writes := m'\<rparr>, c', q')"
    by (simp add: process_writes_def drain(1) ret(1))
  moreover have "m' i \<noteq> Some []" for i
    using ret(2,3) by (cases "i \<in> dom p") auto
  moreover have "finite (dom m')"
    using ret(4) drain(5) finite_subset by blast
  moreover have "conserves accepted finished writable i (q, queue_of p i) (q', queue_of m' i)"
    if "writable q i" "fin_last (queue_of p i)" for i
    using sn.retain_pending_writable [OF ks(1) ret(1) that] by simp
  moreover have "queue_of m' i = [] \<and> accepted q' i = accepted q i \<and> finished q' i = finished q i"
    if "queue_of p i = []" for i
    using sn.retain_pending_idle [OF ret(1) that] .
  ultimately show ?thesis
    using drain
    by (intro exI [of _ "d\<lparr>drv_pending_writes := m'\<rparr>"] exI [of _ c'] exI [of _ q'])
      (simp add: Let_def del: conserves.simps)
qed

end

interpretation ref_write_env: write_env fifo_mpsc fifo_items fifo_room fifo_live
    ref_quic rc_accepted rc_finished rc_writable
  by unfold_locales

subsection \<open>Properties\<close>

lemma process_writes_attempted:
  assumes "mpsc_fifo wch items room live" "quic_sender qc accepted finished" "live c"
    and "finite (dom (drv_pending_writes d))" "hash_order ord"
    and "queue_of (drv_pending_writes d) i @ chunks_for i (items c) = qu" "qu \<noteq> []"
    and "process_writes wch qc ord d c q = Some (d', c', q')"
  shows "attempted qc i qu (drv_pending_writes d' i)"
proof -
  obtain p c1 where drain: "drain_channel wch (drv_pending_writes d) c = Some (p, c1)"
    "\<forall>j. queue_of p j = queue_of (drv_pending_writes d) j @ chunks_for j (items c)"
    "finite (dom p)"
    using write_channel.drain_channel_ends [OF write_channel.intro [OF assms(1)] assms(3)] assms(4)
    by blast
  have ks: "distinct (ord (dom p))" "set (ord (dom p)) = dom p"
    using hash_orderD [OF assms(5) drain(3)] by auto
  have "queue_of p i = qu" using drain(2) assms(6) by simp
  then have pi: "p i = Some qu" using assms(7) by (auto simp: queue_of_def split: option.splits)
  obtain m' q1 where "retain_pending qc (ord (dom p)) p q = Some (m', q1)"
    "\<forall>j \<in> set (ord (dom p)). \<forall>qu. p j = Some qu \<longrightarrow> attempted qc j qu (m' j)"
    using quic_sender.retain_pending_ends [OF assms(2) ks(1), of p q] by blast
  with pi ks(2) have "m' = drv_pending_writes d'" "attempted qc i qu (m' i)"
    using assms(8) drain(1) by (auto simp: process_writes_def)
  then show ?thesis by simp
qed

text \<open>
  A concrete driver: stream 0 waits with one byte; PHP queued two more bytes and then the FIN
  for stream 0, and a FIN alone for stream 4. The connection accepts two bytes per stream.
\<close>

definition example_writer :: driver where
  "example_writer =
     \<lparr>drv_conn_id = 7, drv_stream_event_recv = 0, drv_established = True,
      drv_io_worker_buf = [0, 0], drv_write_notify = 1,
      drv_pending_writes = [0 \<mapsto> [([1], False)]], drv_seen_streams = {}\<rparr>"

definition example_queue :: "stream_writer fifo" where
  "example_queue =
     \<lparr>fifo_items = [(0, Some [2, 3], False), (4, None, True), (0, Some [], True)],
      fifo_room = 253, fifo_live = True\<rparr>"

definition example_window :: ref_conn where
  "example_window =
     \<lparr>rc_armed = [], rc_unread = (\<lambda>_. []), rc_fin = (\<lambda>_. False), rc_window = (\<lambda>_. 2),
      rc_stopped = (\<lambda>_. False), rc_accepted = (\<lambda>_. []), rc_finished = (\<lambda>_. False),
      rc_peer_error = False\<rparr>"

lemma example_writer_facts:
  "fifo_live example_queue" "finite (dom (drv_pending_writes example_writer))"
  "queue_of (drv_pending_writes example_writer) 0 @ chunks_for 0 (fifo_items example_queue) =
     [([1], False), ([2, 3], False), ([], True)]"
  "queue_of (drv_pending_writes example_writer) 4 @ chunks_for 4 (fifo_items example_queue) =
     [([], True)]"
  "rc_writable example_window i"
  "rc_accepted example_window i = []" "\<not> rc_finished example_window i"
  by (simp_all add: example_queue_def example_writer_def queue_of_def example_window_def
      rc_writable_def)

declare drain_channel.simps [code]

lemma example_writes:
  "map_option (\<lambda>(d, c, q). (map (drv_pending_writes d) [0, 4], fifo_items c,
       map (rc_accepted q) [0, 4], map (rc_finished q) [0, 4]))
     (process_writes fifo_mpsc ref_quic (\<lambda>_. [0, 4]) example_writer example_queue example_window) =
   Some ([Some [([3], False), ([], True)], None], [], [[1, 2], []], [False, True])"
  by code_simp

text \<open>C11: \<open>process_writes\<close> always returns, leaves the write channel empty, keeps no empty queue,
  and neither loses, duplicates nor reorders a byte of a stream that is writable and on which
  PHP queued nothing after a FIN: what the connection accepted, followed by what still waits, is
  what it had accepted, followed by what waited, followed by what PHP queued. The same holds for
  the FIN. Every other field of the driver is unchanged. (A chunk that follows a FIN is refused
  by the connection and dropped, so nothing of this kind holds for it.)\<close>

theorem process_writes_conserves:
  assumes "write_env wch items room live qc accepted finished writable" "live c"
    and "finite (dom (drv_pending_writes d))" "hash_order ord"
  shows "\<exists>d' c' q'. process_writes wch qc ord d c q = Some (d', c', q') \<and> live c' \<and>
     items c' = [] \<and> (\<forall>i. drv_pending_writes d' i \<noteq> Some []) \<and>
     d' = d\<lparr>drv_pending_writes := drv_pending_writes d'\<rparr> \<and>
     (\<forall>i. writable q i \<longrightarrow>
        fin_last (queue_of (drv_pending_writes d) i @ chunks_for i (items c)) \<longrightarrow>
        accepted q' i @ queue_bytes (queue_of (drv_pending_writes d') i) =
          accepted q i @ queue_bytes (queue_of (drv_pending_writes d) i) @
          queue_bytes (chunks_for i (items c)) \<and>
        (finished q' i \<or> has_fin (queue_of (drv_pending_writes d') i) \<longleftrightarrow>
         finished q i \<or> has_fin (queue_of (drv_pending_writes d) i @ chunks_for i (items c))))"
proof -
  obtain d' c' q' where r: "process_writes wch qc ord d c q = Some (d', c', q')" "live c'"
    "items c' = []" "\<forall>i. drv_pending_writes d' i \<noteq> Some []"
    "d' = d\<lparr>drv_pending_writes := drv_pending_writes d'\<rparr>"
    "\<forall>i. writable q i \<longrightarrow>
        fin_last (queue_of (drv_pending_writes d) i @ chunks_for i (items c)) \<longrightarrow>
        conserves accepted finished writable i
          (q, queue_of (drv_pending_writes d) i @ chunks_for i (items c))
          (q', queue_of (drv_pending_writes d') i)"
    using write_env.process_writes_ends [OF assms, of q] unfolding Let_def
    by (elim exE conjE) (rule that, auto simp del: conserves.simps)
  then show ?thesis by (intro exI [of _ d'] exI [of _ c'] exI [of _ q']) simp
qed

theorem process_writes_conserves_witness:
  "\<exists>d' c' q'. process_writes fifo_mpsc ref_quic sorted_list_of_set example_writer example_queue
       example_window = Some (d', c', q') \<and> fifo_items c' = [] \<and>
     rc_accepted q' 0 @ queue_bytes (queue_of (drv_pending_writes d') 0) = [1, 2, 3] \<and>
     (rc_finished q' 0 \<or> has_fin (queue_of (drv_pending_writes d') 0))"
proof -
  note f = example_writer_facts
  have q: "queue_bytes (queue_of (drv_pending_writes example_writer) 0) @
      queue_bytes (chunks_for 0 (fifo_items example_queue)) = [1, 2, 3]"
    using f(3) by (simp flip: queue_bytes_simps(3))
  obtain d' c' q' where r: "process_writes fifo_mpsc ref_quic sorted_list_of_set example_writer
      example_queue example_window = Some (d', c', q')" "fifo_items c' = []"
    "\<forall>i. rc_writable example_window i \<longrightarrow>
       fin_last (queue_of (drv_pending_writes example_writer) i @
         chunks_for i (fifo_items example_queue)) \<longrightarrow>
       rc_accepted q' i @ queue_bytes (queue_of (drv_pending_writes d') i) =
         rc_accepted example_window i @ queue_bytes (queue_of (drv_pending_writes example_writer) i) @
         queue_bytes (chunks_for i (fifo_items example_queue)) \<and>
       (rc_finished q' i \<or> has_fin (queue_of (drv_pending_writes d') i) \<longleftrightarrow>
        rc_finished example_window i \<or> has_fin (queue_of (drv_pending_writes example_writer) i @
          chunks_for i (fifo_items example_queue)))"
    using process_writes_conserves [OF ref_write_env.write_env_axioms f(1,2) hash_order_sorted,
        of example_window] by (elim exE conjE) (rule that)
  then show ?thesis
    using r(3) [rule_format, of 0] f(3,5-7) q by simp
qed

text \<open>C21: Streams are flushed independently. In every \<open>process_writes\<close>, every stream with
  something to send is attempted: its first chunk is given to \<open>stream_send\<close>, whatever the
  connection answered for the other streams. The calls for a stream go through its queue, the
  chunks that waited before those PHP queued since, until one is answered with \<open>Done\<close> or accepted
  in part, and exactly what was not accepted or refused waits for the next pass. The calls are
  those that an observer of the connection notes; observing changes nothing.\<close>

theorem process_writes_attempts_every_stream:
  assumes "mpsc_fifo wch items room live" "quic_sender qc accepted finished" "live c"
    and "finite (dom (drv_pending_writes d))" "hash_order ord"
  shows "\<exists>d' c' q' log. process_writes wch qc ord d c q = Some (d', c', q') \<and>
     process_writes wch (logged_quic qc) ord d c (q, []) = Some (d', c', (q', log)) \<and>
     (\<forall>i. let qu = queue_of (drv_pending_writes d) i @ chunks_for i (items c) in
        tried qu (calls_for i log) (queue_of (drv_pending_writes d') i) \<and>
        (qu \<noteq> [] \<longrightarrow> (\<exists>r calls. calls_for i log = (hd qu, r) # calls)))"
proof -
  obtain p c1 where drain: "drain_channel wch (drv_pending_writes d) c = Some (p, c1)" "finite (dom p)"
    "\<forall>i. queue_of p i = queue_of (drv_pending_writes d) i @ chunks_for i (items c)"
    using write_channel.drain_channel_ends [OF write_channel.intro [OF assms(1)] assms(3)] assms(4)
    by blast
  note ks = hash_orderD [OF assms(5) drain(2)]
  obtain m' q' where ret: "retain_pending qc (ord (dom p)) p q = Some (m', q')"
    using quic_sender.retain_pending_ends [OF assms(2) ks(1), of p q] by (elim exE conjE) (rule that)
  obtain log where log: "retain_pending (logged_quic qc) (ord (dom p)) p (q, []) = Some (m', (q', log))"
    "\<forall>i. i \<notin> set (ord (dom p)) \<longrightarrow> m' i = p i \<and> calls_for i log = []"
    "\<forall>i \<in> set (ord (dom p)). tried (queue_of p i) (calls_for i log) (queue_of m' i)"
    using retain_pending_logged [OF ks(1) ret, of "[]"] by auto
  have t: "tried (queue_of p i) (calls_for i log) (queue_of m' i)" for i
    using log(2,3) ks(2) by (cases "i \<in> dom p") (auto simp: queue_of_def domIff)
  moreover have "\<exists>r calls. calls_for i log = (hd (queue_of p i), r) # calls" if "queue_of p i \<noteq> []" for i
    using t [of i] that tried_first by (cases "queue_of p i") auto
  ultimately show ?thesis
    using drain ret log(1) by (auto simp: process_writes_def Let_def)
qed

text \<open>A connection that blocks stream 0: it answers \<open>Done\<close> there, and stream 4 is attempted all
  the same.\<close>

theorem process_writes_attempts_every_stream_witness:
  "\<exists>d' c' q' log. process_writes fifo_mpsc (logged_quic ref_quic) sorted_list_of_set example_writer
       example_queue (example_window\<lparr>rc_window := (\<lambda>_. 0)\<rparr>, []) = Some (d', c', (q', log)) \<and>
     (\<exists>r calls. calls_for 0 log = (([1], False), r) # calls) \<and>
     (\<exists>r calls. calls_for 4 log = (([], True), r) # calls)"
proof -
  obtain d' c' q' log where r: "process_writes fifo_mpsc (logged_quic ref_quic) sorted_list_of_set
      example_writer example_queue (example_window\<lparr>rc_window := (\<lambda>_. 0)\<rparr>, []) = Some (d', c', (q', log))"
    "\<forall>i. let qu = queue_of (drv_pending_writes example_writer) i @
               chunks_for i (fifo_items example_queue) in
        tried qu (calls_for i log) (queue_of (drv_pending_writes d') i) \<and>
        (qu \<noteq> [] \<longrightarrow> (\<exists>r calls. calls_for i log = (hd qu, r) # calls))"
    using process_writes_attempts_every_stream [OF fifo.mpsc_fifo_axioms
        ref_sender.quic_sender_axioms example_writer_facts(1,2) hash_order_sorted,
        of "example_window\<lparr>rc_window := (\<lambda>_. 0)\<rparr>"] by (elim exE conjE) (rule that)
  show ?thesis
    using r(1) r(2) [rule_format, of 0] r(2) [rule_format, of 4] example_writer_facts(3,4)
    by (simp add: Let_def)
qed

end
