(* ===== verification/Write_Path.thy ===== *)
theory Write_Path
  imports Driver_Writes Php
begin

text \<open>
  The way of PHP's writes through the extension: from \<open>write\<close> and \<open>close\<close> of the stream
  objects, through the connection's write channel and the driver's queues, into the QUIC
  connection. The specification of this pipeline is a byte string per stream to which a
  successful write appends; the theorem shows that the code refines it, however the methods PHP
  calls and the driver's \<open>process_writes\<close> interleave.
\<close>

subsection \<open>Runs of the pipeline\<close>

text \<open>
  A method that PHP calls while it holds some locks, one \<open>process_writes\<close> of the driver, or a
  change of the connection by the network: acknowledgements, send windows that open or close, data
  that arrives.
\<close>

datatype 'q pipe_step =
    PhpOp "mutex set" php_op
  | Flush "u64 set \<Rightarrow> u64 list"
  | Net "'q \<Rightarrow> 'q"

text \<open>A run returns, besides the final state, what PHP called and what it got.\<close>

fun pipe_run ::
  "('wc, stream_writer) mpsc \<Rightarrow> 'wc php_engine \<Rightarrow> 'q quic \<Rightarrow> 'q pipe_step list \<Rightarrow>
   'wc store \<Rightarrow> driver \<Rightarrow> 'q \<Rightarrow> ((php_op \<times> php_result) list \<times> 'wc store \<times> driver \<times> 'q) option" where
  "pipe_run wch pe qc [] s d q = Some ([], s, d, q)"
| "pipe_run wch pe qc (PhpOp held op # steps) s d q =
     (case php_call wch pe op held s of
        None \<Rightarrow> None
      | Some (r, s1) \<Rightarrow>
          map_option (apfst (Cons (op, r))) (pipe_run wch pe qc steps s1 d q))"
| "pipe_run wch pe qc (Flush ord # steps) s d q =
     (case process_writes wch qc ord d (st_chans s (drv_stream_event_recv d)) q of
        None \<Rightarrow> None
      | Some (d1, c1, q1) \<Rightarrow>
          pipe_run wch pe qc steps
            (s\<lparr>st_chans := (st_chans s)(drv_stream_event_recv d := c1)\<rparr>) d1 q1)"
| "pipe_run wch pe qc (Net f # steps) s d q = pipe_run wch pe qc steps s d (f q)"

text \<open>
  The chunks that the calls of a run wrote on stream \<open>i\<close> of the connection with write channel
  \<open>tx\<close>: those of the \<open>write\<close> and \<open>close\<close> calls that did not throw.
\<close>

definition ends_in :: "addr \<Rightarrow> u64 \<Rightarrow> php_object \<Rightarrow> bool" where
  "ends_in tx i obj \<longleftrightarrow> (case write_end obj of Some (t, n, j) \<Rightarrow> t = tx \<and> j = i | None \<Rightarrow> False)"

fun written :: "addr \<Rightarrow> u64 \<Rightarrow> php_op \<times> php_result \<Rightarrow> (bytes \<times> bool) list" where
  "written tx i (Write obj d fin, PhpUnit) = (if ends_in tx i obj then [(d, fin)] else [])"
| "written tx i (CloseStream obj, PhpUnit) = (if ends_in tx i obj then [([], True)] else [])"
| "written tx i _ = []"

definition written_in :: "addr \<Rightarrow> u64 \<Rightarrow> (php_op \<times> php_result) list \<Rightarrow> (bytes \<times> bool) list" where
  "written_in tx i log = concat (map (written tx i) log)"

lemma written_in_simps [simp]:
  "written_in tx i [] = []" "written_in tx i (x # log) = written tx i x @ written_in tx i log"
  by (simp_all add: written_in_def)

text \<open>What waits for stream \<open>i\<close>: in the driver's queue, then in the channel.\<close>

definition waiting :: "('wc \<Rightarrow> stream_writer list) \<Rightarrow> 'wc store \<Rightarrow> driver \<Rightarrow> u64 \<Rightarrow> (bytes \<times> bool) list" where
  "waiting items s d i =
     queue_of (drv_pending_writes d) i @ chunks_for i (items (st_chans s (drv_stream_event_recv d)))"

lemma fin_last_append:
  "fin_last (xs @ ys) \<longleftrightarrow> fin_last xs \<and> fin_last ys \<and> (has_fin xs \<longrightarrow> ys = [])"
  by (induction xs rule: fin_last.induct) auto

lemma has_fin_append [simp]: "has_fin (xs @ ys) \<longleftrightarrow> has_fin xs \<or> has_fin ys"
  by (auto simp: has_fin_def)

lemma chunks_for_append [simp]: "chunks_for i (ws @ ws') = chunks_for i ws @ chunks_for i ws'"
  by (simp add: chunks_for_def)

subsection \<open>One step\<close>

text \<open>Whatever method is called, the channel gains exactly the chunks that were written.\<close>

lemma send_chunk_queues:
  assumes "mpsc_fifo wch items room live" "live (st_chans s tx)"
    and "apfst unit_result (send_chunk wch t n (j, Some b, fin) label s) = (r, s')"
  shows "live (st_chans s' tx) \<and>
     items (st_chans s' tx) =
       items (st_chans s tx) @ (if r = PhpUnit \<and> t = tx then [(j, Some b, fin)] else [])"
  using assms(2,3)
  by (cases "(j, Some b, fin)" "st_chans s t" rule: mpsc_fifo.try_send_cases [OF assms(1)])
    (auto simp: send_chunk_def)

lemma not_write_keeps_channels:
  assumes "php_call wch pe op held s = Some (r, s')"
    and "\<And>obj d fin. op \<noteq> Write obj d fin" "\<And>obj. op \<noteq> CloseStream obj"
  shows "st_chans s' = st_chans s"
  using assms
  by (cases op)
    (auto simp: stream_defs undefined_method_def prepare_bidi_stream_eq prepare_uni_stream_eq
      install_slot_Some split: php_object.splits if_splits)

lemma php_call_queues:
  assumes "mpsc_fifo wch items room live" "live (st_chans s tx)"
    and "php_call wch pe op held s = Some (r, s')"
  shows "live (st_chans s' tx) \<and>
     chunks_for i (items (st_chans s' tx)) =
       chunks_for i (items (st_chans s tx)) @ written tx i (op, r)"
proof -
  have other: ?thesis if "st_chans s' = st_chans s" "written tx i (op, r) = []"
    using that assms(2) by simp
  have sent: ?thesis
    if w: "write_end obj = Some (t, n, j)"
      and op: "op = Write obj b fin \<or> op = CloseStream obj \<and> b = [] \<and> fin" for obj t n j b fin
  proof -
    obtain label where "apfst unit_result (send_chunk wch t n (j, Some b, fin) label s) = (r, s')"
      using assms(3) op by (auto simp: php_call_write [OF w] simp del: php_call.simps)
    from send_chunk_queues [OF assms(1,2) this] show ?thesis
      using op w by (cases r) (auto simp: ends_in_def)
  qed
  have none: ?thesis
    if "write_end obj = None" "op = Write obj b fin \<or> op = CloseStream obj" for obj b fin
    using that assms(3) by (cases obj) (auto intro!: other simp: undefined_method_def)
  show ?thesis
  proof (cases op)
    case (Write obj b fin)
    then show ?thesis using sent none by (cases "write_end obj") auto
  next
    case (CloseStream obj)
    then show ?thesis using sent none by (cases "write_end obj") auto
  qed (use not_write_keeps_channels [OF assms(3)] assms(2) in \<open>auto intro: other\<close>)
qed

text \<open>
  What a step needs: free locks, the iteration order of a hash map, or a network that takes nothing
  back of what stream \<open>i\<close> was accepted for and does not end the stream.
\<close>

fun step_ok ::
  "'wc php_engine \<Rightarrow> ('q \<Rightarrow> u64 \<Rightarrow> bytes) \<Rightarrow> ('q \<Rightarrow> u64 \<Rightarrow> bool) \<Rightarrow> ('q \<Rightarrow> u64 \<Rightarrow> bool) \<Rightarrow> u64 \<Rightarrow>
   'q pipe_step \<Rightarrow> bool" where
  "step_ok pe accepted finished writable i (PhpOp held op) \<longleftrightarrow> op_locks (pe_callable pe) op \<inter> held = {}"
| "step_ok pe accepted finished writable i (Flush ord) \<longleftrightarrow> hash_order ord"
| "step_ok pe accepted finished writable i (Net f) \<longleftrightarrow>
     (\<forall>q. accepted (f q) i = accepted q i \<and> finished (f q) i = finished q i \<and>
        (writable q i \<longrightarrow> writable (f q) i))"

subsection \<open>Refinement\<close>

text \<open>
  \<open>refines \<dots> (q, W) F (q', W')\<close>: if the chunks \<open>W\<close> waited in connection state \<open>q\<close> and \<open>F\<close> was
  written after them, then what is accepted or waits in the end is exactly that.
\<close>

fun refines ::
  "('q \<Rightarrow> u64 \<Rightarrow> bytes) \<Rightarrow> ('q \<Rightarrow> u64 \<Rightarrow> bool) \<Rightarrow> ('q \<Rightarrow> u64 \<Rightarrow> bool) \<Rightarrow> u64 \<Rightarrow>
   'q \<times> (bytes \<times> bool) list \<Rightarrow> (bytes \<times> bool) list \<Rightarrow> 'q \<times> (bytes \<times> bool) list \<Rightarrow> bool" where
  "refines accepted finished writable i (q, W) F (q', W') \<longleftrightarrow>
     (fin_last (W @ F) \<longrightarrow> writable q i \<or> W @ F = [] \<longrightarrow>
        accepted q' i @ queue_bytes W' = accepted q i @ queue_bytes (W @ F) \<and>
        (finished q' i \<or> has_fin W' \<longleftrightarrow> finished q i \<or> has_fin (W @ F)))"

lemma refines_conserves:
  assumes "writable q i \<longrightarrow> fin_last W \<longrightarrow> conserves accepted finished writable i (q, W) (q1, W1)"
    and "W = [] \<longrightarrow> W1 = [] \<and> accepted q1 i = accepted q i \<and> finished q1 i = finished q i"
    and "refines accepted finished writable i (q1, W1) F (q', W')"
  shows "refines accepted finished writable i (q, W) F (q', W')"
proof (cases "writable q i \<and> fin_last (W @ F)")
  case True
  then have "conserves accepted finished writable i (q, W) (q1, W1)"
    using assms(1) by (simp add: fin_last_append del: conserves.simps)
  then show ?thesis
    using True assms(3) by (auto simp: fin_last_append)
next
  case False
  then show ?thesis using assms(2,3) by auto
qed

lemma flush_step:
  assumes "write_env wch items room live qc accepted finished writable"
    and "live (st_chans s (drv_stream_event_recv d))" "finite (dom (drv_pending_writes d))"
    and "hash_order ord"
  obtains d1 c1 q1 where
    "process_writes wch qc ord d (st_chans s (drv_stream_event_recv d)) q = Some (d1, c1, q1)"
    "live c1" "items c1 = []" "finite (dom (drv_pending_writes d1))"
    "d1 = d\<lparr>drv_pending_writes := drv_pending_writes d1\<rparr>"
    "writable q i \<longrightarrow> fin_last (waiting items s d i) \<longrightarrow> conserves accepted finished writable i
       (q, waiting items s d i) (q1, queue_of (drv_pending_writes d1) i)"
    "waiting items s d i = [] \<longrightarrow> queue_of (drv_pending_writes d1) i = [] \<and>
       accepted q1 i = accepted q i \<and> finished q1 i = finished q i"
  using write_env.process_writes_ends [OF assms, of q, unfolded Let_def, folded waiting_def]
  by (elim exE conjE) (rule that, assumption+, blast+)

lemma pipe_run_refines:
  assumes "write_env wch items room live qc accepted finished writable"
    and "live (st_chans s (drv_stream_event_recv d))" "finite (dom (drv_pending_writes d))"
    and "list_all (step_ok pe accepted finished writable i) steps"
  shows "\<exists>log s' d' q'. pipe_run wch pe qc steps s d q = Some (log, s', d', q') \<and>
     refines accepted finished writable i (q, waiting items s d i)
       (written_in (drv_stream_event_recv d) i log) (q', waiting items s' d' i)"
  using assms(2-4)
proof (induction steps arbitrary: s d q)
  case Nil
  then show ?case by simp
next
  case (Cons step steps)
  let ?tx = "drv_stream_event_recv d"
  note fifo = write_channel.axioms(1) [OF write_env.axioms(1) [OF assms(1)]]
  show ?case
  proof (cases step)
    case (PhpOp held op)
    then obtain r s1 where call: "php_call wch pe op held s = Some (r, s1)"
      using Cons.prems(3) php_call_None_iff [of wch pe op held s] by auto
    note queued = php_call_queues [OF fifo Cons.prems(1) call]
    obtain log s' d' q' where rest: "pipe_run wch pe qc steps s1 d q = Some (log, s', d', q')"
      "refines accepted finished writable i (q, waiting items s1 d i) (written_in ?tx i log)
         (q', waiting items s' d' i)"
      using Cons.IH [of s1 d q] queued Cons.prems(2,3) by auto
    have "waiting items s1 d i = waiting items s d i @ written ?tx i (op, r)"
      using queued [of i] by (simp add: waiting_def)
    with PhpOp call rest show ?thesis
      by (intro exI [of _ "(op, r) # log"] exI [of _ s'] exI [of _ d'] exI [of _ q']) simp
  next
    case (Flush ord)
    then have "hash_order ord" using Cons.prems(3) by simp
    then obtain d1 c1 q1 where fl:
      "process_writes wch qc ord d (st_chans s ?tx) q = Some (d1, c1, q1)" "live c1" "items c1 = []"
      "finite (dom (drv_pending_writes d1))"
      "d1 = d\<lparr>drv_pending_writes := drv_pending_writes d1\<rparr>"
      and keeps: "writable q i \<longrightarrow> fin_last (waiting items s d i) \<longrightarrow>
         conserves accepted finished writable i
         (q, waiting items s d i) (q1, queue_of (drv_pending_writes d1) i)"
      "waiting items s d i = [] \<longrightarrow> queue_of (drv_pending_writes d1) i = [] \<and>
         accepted q1 i = accepted q i \<and> finished q1 i = finished q i"
      by (rule flush_step [OF assms(1) Cons.prems(1,2)])
    let ?s = "s\<lparr>st_chans := (st_chans s)(?tx := c1)\<rparr>"
    have recv: "drv_stream_event_recv d1 = ?tx" by (subst fl(5)) simp
    then have w1: "waiting items ?s d1 i = queue_of (drv_pending_writes d1) i"
      using fl(3) by (simp add: waiting_def)
    obtain log s' d' q' where rest: "pipe_run wch pe qc steps ?s d1 q1 = Some (log, s', d', q')"
      "refines accepted finished writable i (q1, waiting items ?s d1 i) (written_in ?tx i log)
         (q', waiting items s' d' i)"
      using Cons.IH [of ?s d1 q1] fl(2,4) recv Cons.prems(3) by auto
    have "pipe_run wch pe qc (step # steps) s d q = Some (log, s', d', q')"
      using Flush fl(1) rest(1) by simp
    then show ?thesis using refines_conserves [OF keeps rest(2) [unfolded w1]] by blast
  next
    case (Net f)
    then obtain log s' d' q' where "pipe_run wch pe qc steps s d (f q) = Some (log, s', d', q')"
      "refines accepted finished writable i (f q, waiting items s d i) (written_in ?tx i log)
         (q', waiting items s' d' i)"
      using Cons.IH [of s d "f q"] Cons.prems by auto
    with Net Cons.prems(3) show ?thesis by auto
  qed
qed

text \<open>C2: Writing refines its specification, a byte string per stream to which every successful
  \<open>write\<close> appends. Take any run in which PHP calls methods of any stream objects, inside or
  outside of callbacks, the driver of the connection runs \<open>process_writes\<close> and the network changes
  the connection, say its send windows, in any order. The run returns, and for a stream that was writable at its start and on which nothing
  is written after a FIN, the bytes the connection accepted, followed by the bytes that wait in the driver
  and in the channel, are what they were, followed by exactly the chunks of the calls that did
  not throw, in the order of the calls; and a FIN is sent or waits exactly if one was or was
  written. Calls that throw write nothing.\<close>

theorem written_bytes_reach_the_connection:
  assumes "write_env wch items room live qc accepted finished writable"
    and "live (st_chans s (drv_stream_event_recv d))" "finite (dom (drv_pending_writes d))"
    and "list_all (step_ok pe accepted finished writable i) steps" "writable q i"
  shows "\<exists>log s' d' q' chs. pipe_run wch pe qc steps s d q = Some (log, s', d', q') \<and>
     chs = written_in (drv_stream_event_recv d) i log \<and>
     (fin_last (waiting items s d i @ chs) \<longrightarrow>
        accepted q' i @ queue_bytes (waiting items s' d' i) =
          accepted q i @ queue_bytes (waiting items s d i) @ concat (map fst chs) \<and>
        (finished q' i \<or> has_fin (waiting items s' d' i) \<longleftrightarrow>
         finished q i \<or> has_fin (waiting items s d i) \<or> True \<in> snd ` set chs))"
proof -
  obtain log s' d' q' where run: "pipe_run wch pe qc steps s d q = Some (log, s', d', q')"
    "refines accepted finished writable i (q, waiting items s d i)
       (written_in (drv_stream_event_recv d) i log) (q', waiting items s' d' i)"
    using pipe_run_refines [OF assms(1-4)] by blast
  then show ?thesis
    using assms(5) by (auto simp: queue_bytes_def [of "written_in _ _ _"]
        has_fin_def [of "written_in _ _ _"])
qed

theorem written_bytes_reach_the_connection_witness:
  "\<exists>s' d' q'. pipe_run fifo_mpsc example_engine ref_quic
       [PhpOp {SlotMutex 3} (Write example_incoming [1, 2, 3] False),
        PhpOp {} (CloseStream example_incoming), Net (\<lambda>q. q\<lparr>rc_window := (\<lambda>_. 9)\<rparr>),
        Flush sorted_list_of_set]
       example_store example_writer example_window =
     Some ([(Write example_incoming [1, 2, 3] False, PhpUnit),
            (CloseStream example_incoming, PhpUnit)], s', d', q') \<and>
     rc_accepted q' 4 @ queue_bytes (waiting fifo_items s' d' 4) = [1, 2, 3] \<and>
     (rc_finished q' 4 \<or> has_fin (waiting fifo_items s' d' 4))"
proof -
  let ?steps = "[PhpOp {SlotMutex 3} (Write example_incoming [1, 2, 3] False),
    PhpOp {} (CloseStream example_incoming), Net (\<lambda>q. q\<lparr>rc_window := (\<lambda>_. 9)\<rparr>),
    Flush sorted_list_of_set]"
  have w: "write_end example_incoming = Some (0, 1, 4)" "drv_stream_event_recv example_writer = 0"
    by (simp_all add: example_incoming_def example_writer_def)
  have facts: "fifo_live (st_chans example_store (drv_stream_event_recv example_writer))"
    "finite (dom (drv_pending_writes example_writer))"
    "list_all (step_ok (example_engine :: stream_writer fifo php_engine) rc_accepted rc_finished
       rc_writable 4) ?steps"
    "waiting fifo_items example_store example_writer 4 = []"
    by (simp_all add: example_store_def example_writer_def fifo_mpsc_def hash_order_sorted
        waiting_def queue_of_def rc_writable_def)
  obtain log s' d' q' where run: "pipe_run fifo_mpsc example_engine ref_quic ?steps example_store
      example_writer example_window = Some (log, s', d', q')"
    "fin_last (written_in 0 4 log) \<longrightarrow>
       rc_accepted q' 4 @ queue_bytes (waiting fifo_items s' d' 4) =
         rc_accepted example_window 4 @ concat (map fst (written_in 0 4 log)) \<and>
       (rc_finished q' 4 \<or> has_fin (waiting fifo_items s' d' 4) \<longleftrightarrow>
        rc_finished example_window 4 \<or> True \<in> snd ` set (written_in 0 4 log))"
    using written_bytes_reach_the_connection [OF ref_write_env.write_env_axioms facts(1-3)
        example_writer_facts(5) [of 4], unfolded facts(4) w(2)]
    by (elim exE conjE) (rule that, assumption, simp del: pipe_run.simps)
  have "log = [(Write example_incoming [1, 2, 3] False, PhpUnit),
      (CloseStream example_incoming, PhpUnit)]"
    using run(1) by (auto simp: php_call_write [OF w(1)] send_chunk_def example_store_def
        fifo_mpsc_def fifo_try_send_def simp del: php_call.simps split: option.splits)
  with run show ?thesis
    using w(1) by (auto simp: ends_in_def example_writer_facts(6,7))
qed

end
