(* ===== verification/Socket.thy ===== *)
theory Socket
  imports Server Config Runtime Timer
begin

text \<open>
  \<open>QuicheServerSocketImpl::bind\<close> of \<open>src/quiche/socket.rs\<close> and \<open>src/conn.rs\<close>: the PHP
  classes \<open>SocketAddress\<close> and \<open>QuicheServerSocket\<close>, whose constructor checks the callback,
  starts the runtime, binds the sockets and duplicates the caller's eventfd.

  Network, kernel, tokio builder and environment are parameters.
\<close>

subsection \<open>\<open>SocketAddress\<close>\<close>

record socket_address =
  sa_address :: string
  sa_port :: u16

definition socket_address_construct :: "string \<Rightarrow> u16 \<Rightarrow> socket_address" where
  "socket_address_construct address port = \<lparr>sa_address = address, sa_port = port\<rparr>"

definition socket_address_get_address :: "socket_address \<Rightarrow> string" where
  "socket_address_get_address a = sa_address a"

definition socket_address_set_address :: "string \<Rightarrow> socket_address \<Rightarrow> socket_address" where
  "socket_address_set_address address a = a\<lparr>sa_address := address\<rparr>"

definition socket_address_get_port :: "socket_address \<Rightarrow> u16" where
  "socket_address_get_port a = sa_port a"

definition socket_address_set_port :: "u16 \<Rightarrow> socket_address \<Rightarrow> socket_address" where
  "socket_address_set_port port a = a\<lparr>sa_port := port\<rparr>"

definition get_address_result :: "socket_address \<Rightarrow> string" where
  "get_address_result a = sa_address a @ '':'' @ print_u16 (sa_port a)"

lemma print_u16_no_colon: "CHR '':'' \<notin> set (print_u16 p)"
  by (simp add: print_u16_def print_radix_no_sign)

lemma append_sep_eq_last:
  assumes "c \<notin> set us" "c \<notin> set vs"
  shows "xs @ c # us = ys @ c # vs \<longleftrightarrow> xs = ys \<and> us = vs"
proof -
  have "xs @ c # us = ys @ c # vs \<longleftrightarrow> rev us @ c # rev xs = rev vs @ c # rev ys"
    by (metis append_Cons append_Nil append_assoc rev.simps(2) rev_append rev_rev_ident)
  then show ?thesis
    using append_sep_eq [of c "rev us" "rev vs" "rev xs" "rev ys"] assms by auto
qed

subsection \<open>\<open>bind\<close>\<close>

text \<open>
  What \<open>bind\<close> hands to \<open>listen\<close>. Of tokio-quiche's certificate kinds and hooks the code names one
  value each, \<open>CertificateKind::X509\<close> and \<open>Hooks::default()\<close>.
\<close>

datatype certificate_kind = X509

datatype hooks = DefaultHooks

record connection_params =
  cp_settings :: quic_settings
  cp_cert :: string
  cp_private_key :: string
  cp_kind :: certificate_kind
  cp_hooks :: hooks

text \<open>
  \<open>net_bind\<close> binds a UDP socket to each address or gives the first error; \<open>net_listen\<close> starts
  the listeners.
\<close>

record 'sock network =
  net_bind :: "string list \<Rightarrow> io_error + 'sock list"
  net_listen :: "'sock list \<Rightarrow> connection_params \<Rightarrow> io_error + unit"

definition bind ::
  "'sock network \<Rightarrow> ('ec, u64 \<times> driver_event) mpsc \<Rightarrow> ('cc, u64 \<times> bool) mpsc \<Rightarrow>
   string list \<Rightarrow> config \<Rightarrow> zval option \<Rightarrow> io_error + ('ec, 'cc) server" where
  "bind net ech cch addrs config callback =
     (if addrs = []
      then Inl (IoError InvalidInput ''bind requires at least one socket address'')
      else
        (case net_bind net addrs of
           Inl e \<Rightarrow> Inl e
         | Inr sockets \<Rightarrow>
             (let params = \<lparr>cp_settings = cfg_inner config, cp_cert = get_cert_path config,
                            cp_private_key = get_key_path config, cp_kind = X509,
                            cp_hooks = DefaultHooks\<rparr>
              in case net_listen net sockets params of
                   Inl e \<Rightarrow> Inl e
                 | Inr _ \<Rightarrow>
                     Inr \<lparr>sv_listening = True, sv_connections = Map.empty, sv_id_counter = 0,
                          sv_stream_callback = callback,
                          sv_events = mpsc_channel ech SERVER_EVENT_CHANNEL_CAPACITY,
                          sv_closes = mpsc_channel cch CONN_CLOSE_CHANNEL_CAPACITY\<rparr>)))"

subsection \<open>\<open>QuicheServerSocket\<close>\<close>

record ('ec, 'cc) socket =
  qs_inner :: "('ec, 'cc) server"
  qs_event_fd :: "i32 option"

text \<open>The process: what \<open>get_runtime\<close> asks, and its cell.\<close>

record 'rt process =
  pr_build :: "usize \<Rightarrow> io_error + 'rt"
  pr_racer :: "'rt option"
  pr_env :: "string option"
  pr_avail :: "io_error + usize"

definition process_runtime ::
  "'rt process \<Rightarrow> 'rt option \<Rightarrow> (quiche_error + 'rt) \<times> 'rt option" where
  "process_runtime pr cell =
     get_runtime (pr_build pr) (pr_racer pr) (pr_env pr) (pr_avail pr) cell"

text \<open>The eventfd of the caller is duplicated; \<open>-1\<close> stands for no eventfd.\<close>

definition adopt_event_fd :: "'k kernel \<Rightarrow> i32 \<Rightarrow> 'k \<Rightarrow> i32 option \<times> 'k" where
  "adopt_event_fd kn event_fd_id k =
     (if event_fd_id \<noteq> -1
      then (case sys_dup kn event_fd_id k of
              (dup_fd, k') \<Rightarrow> (if sint dup_fd < 0 then (None, k') else (Some dup_fd, k')))
      else (None, k))"

definition drop_event_fd :: "'k kernel \<Rightarrow> i32 option \<Rightarrow> 'k \<Rightarrow> 'k" where
  "drop_event_fd kn efd k = (case efd of Some fd \<Rightarrow> sys_close kn fd k | None \<Rightarrow> k)"

definition socket_construct ::
  "(zval \<Rightarrow> bool) \<Rightarrow> 'rt process \<Rightarrow> 'sock network \<Rightarrow> ('ec, u64 \<times> driver_event) mpsc \<Rightarrow>
   ('cc, u64 \<times> bool) mpsc \<Rightarrow> 'k kernel \<Rightarrow>
   socket_address list \<Rightarrow> config \<Rightarrow> i32 \<Rightarrow> zval \<Rightarrow> 'rt option \<Rightarrow> 'k \<Rightarrow>
   (php_exception + ('ec, 'cc) socket) \<times> 'rt option \<times> 'k" where
  "socket_construct callable pr net ech cch kn sockets config event_fd_id on_stream cell k =
     (if \<not> callable on_stream
      then (Inl (php_default ''__construct expects a callable for $on_stream''), cell, k)
      else
        (case process_runtime pr cell of
           (Inl e, cell') \<Rightarrow> (Inl (php_exception_from e), cell', k)
         | (Inr rt, cell') \<Rightarrow>
             (let addrs = map get_address_result sockets;
                  server = bind net ech cch addrs config (Some on_stream)
              in case adopt_event_fd kn event_fd_id k of
                   (event_fd, k1) \<Rightarrow>
                     (case server of
                        Inl e \<Rightarrow>
                          (Inl (php_exception_from (RuntimeInit e)), cell',
                           drop_event_fd kn event_fd k1)
                      | Inr sv \<Rightarrow>
                          (Inr \<lparr>qs_inner = sv, qs_event_fd = event_fd\<rparr>, cell', k1)))))"

text \<open>\<open>None\<close> is a call of \<open>tick\<close> that a callback blocks for ever.\<close>

definition socket_tick ::
  "'rt process \<Rightarrow> ('wc, stream_writer) mpsc \<Rightarrow> ('ec, u64 \<times> driver_event) mpsc \<Rightarrow>
   ('cc, u64 \<times> bool) mpsc \<Rightarrow> 'wc php_engine \<Rightarrow> (u64 set \<Rightarrow> u64 list) \<Rightarrow>
   ('ec, 'cc) tick_input list \<Rightarrow> ('ec, 'cc) socket \<Rightarrow> 'wc store \<Rightarrow> 'rt option \<Rightarrow>
   ((php_exception + tick_status) \<times> ('ec, 'cc) socket \<times> 'wc store \<times> 'rt option) option" where
  "socket_tick pr wch ech cch pe ord inps sock s cell =
     (case process_runtime pr cell of
        (Inl e, cell') \<Rightarrow> Some (Inl (php_exception_from e), sock, s, cell')
      | (Inr rt, cell') \<Rightarrow>
          map_option
            (\<lambda>(status, sv, s'). (Inr status, sock\<lparr>qs_inner := sv\<rparr>, s', cell'))
            (tick wch ech cch pe ord (qs_event_fd sock \<noteq> None) inps (qs_inner sock) s))"

definition socket_close ::
  "('wc, stream_writer) mpsc \<Rightarrow> 'wc php_engine \<Rightarrow> 'k kernel \<Rightarrow> (u64 set \<Rightarrow> u64 list) \<Rightarrow>
   (addr \<Rightarrow> u64 set \<Rightarrow> u64 list) \<Rightarrow> ('ec, 'cc) socket \<Rightarrow> 'wc store \<Rightarrow> 'k \<Rightarrow>
   (('ec, 'cc) socket \<times> 'wc store \<times> 'k) option" where
  "socket_close wch pe kn cord mord sock s k =
     map_option
       (\<lambda>(sv, s'). (sock\<lparr>qs_inner := sv, qs_event_fd := None\<rparr>, s',
                    drop_event_fd kn (qs_event_fd sock) k))
       (server_close wch pe cord mord (qs_inner sock) s)"

end
