(* ===== verification/Socket_Correct.thy ===== *)
theory Socket_Correct
  imports Config_Correct Socket Server_Correct
begin

text \<open>
  The properties of \<open>src/conn.rs\<close>: addresses, the outcomes of the constructor of
  \<open>QuicheServerSocket\<close>, the ownership of the duplicated eventfd, and how a PHP thread wakes
  a server that sleeps in \<open>tick\<close>.
\<close>

text \<open>The address text that is handed to the resolver names the address and the port: two
  \<open>SocketAddress\<close> objects give the same text only if both fields are equal, also when the
  address itself contains colons.\<close>

lemma address_text_is_unambiguous:
  "get_address_result (socket_address_construct a p) = get_address_result (socket_address_construct b q)
     \<longleftrightarrow> a = b \<and> p = q"
  by (simp add: get_address_result_def socket_address_construct_def append_sep_eq_last
      print_u16_no_colon dec_u16.print_eq_iff)

subsection \<open>The constructor\<close>

lemma socket_construct_cases:
  assumes "socket_construct callable pr net ech cch kn sockets config efd on_stream cell k =
     (r, cell', k')"
  obtains (not_callable) "\<not> callable on_stream" "cell' = cell" "k' = k"
      "r = Inl (php_default ''__construct expects a callable for $on_stream'')"
  | (no_runtime) e where "callable on_stream" "process_runtime pr cell = (Inl e, cell')" "k' = k"
      "r = Inl (php_exception_from e)"
  | (not_bound) rt e fd k1 where "callable on_stream" "process_runtime pr cell = (Inr rt, cell')"
      "bind net ech cch (map get_address_result sockets) config (Some on_stream) = Inl e"
      "adopt_event_fd kn efd k = (fd, k1)" "k' = drop_event_fd kn fd k1"
      "r = Inl (php_exception_from (RuntimeInit e))"
  | (bound) rt sv fd where "callable on_stream" "process_runtime pr cell = (Inr rt, cell')"
      "bind net ech cch (map get_address_result sockets) config (Some on_stream) = Inr sv"
      "adopt_event_fd kn efd k = (fd, k')" "r = Inr \<lparr>qs_inner = sv, qs_event_fd = fd\<rparr>"
  using assms
  by (auto simp: socket_construct_def Let_def split: if_splits prod.splits sum.splits)

lemma bind_Inr:
  assumes "bind net ech cch addrs config cb = Inr sv"
  shows "addrs \<noteq> [] \<and> sv = \<lparr>sv_listening = True, sv_connections = Map.empty, sv_id_counter = 0,
    sv_stream_callback = cb, sv_events = mpsc_channel ech SERVER_EVENT_CHANNEL_CAPACITY,
    sv_closes = mpsc_channel cch CONN_CLOSE_CHANNEL_CAPACITY\<rparr>"
  using assms by (auto simp: bind_def Let_def split: if_splits sum.splits)

lemma constructor_outcomes_listening:
  assumes "socket_construct callable pr net ech cch kn sockets config efd on_stream cell k =
     (Inr sock, cell', k')"
  shows "sv_listening (qs_inner sock)"
  using assms by (cases rule: socket_construct_cases) (auto dest: bind_Inr)

text \<open>A process, a network and a kernel with one eventfd (number 0) to evaluate on.\<close>

definition demo_process :: "nat process" where
  "demo_process = \<lparr>pr_build = (\<lambda>_. Inr 5), pr_racer = None, pr_env = None, pr_avail = Inr 4\<rparr>"

definition demo_network :: "string network" where
  "demo_network = \<lparr>net_bind = (\<lambda>addrs. Inr addrs), net_listen = (\<lambda>_ _. Inr ())\<rparr>"

definition demo_kernel :: fd_table where
  "demo_kernel = \<lparr>fdt_fds = [(0, 1)], fdt_counter = (\<lambda>_. 0)\<rparr>"

definition demo_construct ::
  "socket_address list \<Rightarrow> config \<Rightarrow> i32 \<Rightarrow>
   (php_exception + ((u64 \<times> driver_event) fifo, (u64 \<times> bool) fifo) socket) \<times> nat option \<times> fd_table" where
  "demo_construct sockets cfg efd =
     socket_construct (\<lambda>z. z \<noteq> Zval 0) demo_process demo_network fifo_mpsc fifo_mpsc
       table_kernel sockets cfg efd (Zval 1) None demo_kernel"

lemma demo_runtime: "process_runtime demo_process None = (Inr 5, Some 5)"
  by (simp add: process_runtime_def demo_process_def get_runtime_cases)

lemma demo_dup:
  "adopt_event_fd table_kernel 0 demo_kernel =
     (Some 1, demo_kernel\<lparr>fdt_fds := [(1, 1), (0, 1)]\<rparr>)"
  by (simp add: adopt_event_fd_def table_kernel_def table_dup_def lowest_free_def demo_kernel_def)

lemma demo_socket:
  assumes "sockets \<noteq> []"
  shows "\<exists>sv. demo_construct sockets cfg 0 =
    (Inr \<lparr>qs_inner = sv, qs_event_fd = Some 1\<rparr>, Some 5, demo_kernel\<lparr>fdt_fds := [(1, 1), (0, 1)]\<rparr>)"
  using assms demo_runtime demo_dup
  by (simp add: demo_construct_def socket_construct_def bind_def Let_def demo_network_def)

text \<open>C37: Every outcome of the constructor. A callback that is not callable is refused before
  anything else happens: no runtime, no socket, no descriptor. Otherwise the constructor throws in
  four cases only, and each time the message is \<open>failed to initialize tokio runtime: \<close> and the
  text of an I/O error: the runtime's builder failed (then nothing else was tried), there is no
  address, an address cannot be bound, or the listeners cannot be started. The last three have
  nothing to do with the runtime, which is there. In the remaining case a server is returned: it
  listens on the sockets bound to the given addresses with the given configuration, knows no
  connection, hands out number 0 first, and has empty channels of the documented sizes and the
  given callback.\<close>

theorem constructor_outcomes:
  assumes "socket_construct callable pr net ech cch kn sockets config efd on_stream cell k =
     (r, cell', k')"
  shows "let addrs = map get_address_result sockets;
      params = \<lparr>cp_settings = cfg_inner config, cp_cert = get_cert_path config,
        cp_private_key = get_key_path config, cp_kind = X509, cp_hooks = DefaultHooks\<rparr>;
      has_runtime = (\<exists>rt. process_runtime pr cell = (Inr rt, cell'))
    in case r of
      Inl ex \<Rightarrow>
        \<not> callable on_stream \<and> cell' = cell \<and> k' = k \<and>
          ex = PhpException ''__construct expects a callable for $on_stream'' 0 ExceptionClass \<or>
        callable on_stream \<and>
        (\<exists>io. ex = PhpException (''failed to initialize tokio runtime: '' @ io_error_to_string io) 0
              ExceptionClass \<and>
           (cell = None \<and> pr_build pr (worker_thread_count (pr_env pr) (pr_avail pr)) = Inl io \<and>
              k' = k \<or>
            has_runtime \<and> sockets = [] \<and>
              io = IoError InvalidInput ''bind requires at least one socket address'' \<or>
            has_runtime \<and> sockets \<noteq> [] \<and> net_bind net addrs = Inl io \<or>
            has_runtime \<and> sockets \<noteq> [] \<and>
              (\<exists>socks. net_bind net addrs = Inr socks \<and> net_listen net socks params = Inl io)))
    | Inr sock \<Rightarrow>
        callable on_stream \<and> has_runtime \<and> sockets \<noteq> [] \<and>
        (\<exists>socks. net_bind net addrs = Inr socks \<and> net_listen net socks params = Inr ()) \<and>
        qs_inner sock = \<lparr>sv_listening = True, sv_connections = Map.empty, sv_id_counter = 0,
          sv_stream_callback = Some on_stream,
          sv_events = mpsc_channel ech SERVER_EVENT_CHANNEL_CAPACITY,
          sv_closes = mpsc_channel cch CONN_CLOSE_CHANNEL_CAPACITY\<rparr>"
  using assms
proof (cases rule: socket_construct_cases)
  case not_callable
  then show ?thesis by (simp add: Let_def php_default_def)
next
  case (no_runtime e)
  then obtain io where "cell = None" "e = RuntimeInit io"
    "pr_build pr (worker_thread_count (pr_env pr) (pr_avail pr)) = Inl io"
    by (auto simp: process_runtime_def get_runtime_cases split: option.splits sum.splits)
  with no_runtime show ?thesis by (simp add: Let_def php_exception_from_def)
next
  case (not_bound rt e fd k1)
  from not_bound(3) consider "sockets = []"
      "e = IoError InvalidInput ''bind requires at least one socket address''"
    | "sockets \<noteq> []" "net_bind net (map get_address_result sockets) = Inl e"
    | socks where "sockets \<noteq> []" "net_bind net (map get_address_result sockets) = Inr socks"
      "net_listen net socks \<lparr>cp_settings = cfg_inner config, cp_cert = get_cert_path config,
        cp_private_key = get_key_path config, cp_kind = X509, cp_hooks = DefaultHooks\<rparr> = Inl e"
    by (auto simp: bind_def Let_def split: if_splits sum.splits)
  then show ?thesis
    using not_bound(1,2,6) by cases (simp add: Let_def php_exception_from_def, rule exI [of _ e], simp)+
next
  case (bound rt sv fd)
  then show ?thesis by (auto simp: bind_def Let_def split: if_splits sum.splits)
qed

theorem constructor_outcomes_witness:
  "(\<exists>sock k. demo_construct [socket_address_construct ''127.0.0.1'' 4433] demo_config 0 =
       (Inr sock, Some 5, k) \<and>
     sv_connections (qs_inner sock) = Map.empty \<and>
     sv_stream_callback (qs_inner sock) = Some (Zval 1)) \<and>
   (\<exists>c k. demo_construct [] demo_config 0 =
      (Inl (PhpException
         ''failed to initialize tokio runtime: bind requires at least one socket address'' 0
         ExceptionClass), c, k))"
proof (rule conjI)
  obtain sv where c: "demo_construct [socket_address_construct ''127.0.0.1'' 4433] demo_config 0 =
    (Inr \<lparr>qs_inner = sv, qs_event_fd = Some 1\<rparr>, Some 5, demo_kernel\<lparr>fdt_fds := [(1, 1), (0, 1)]\<rparr>)"
    using demo_socket [of "[socket_address_construct ''127.0.0.1'' 4433]" demo_config] by auto
  then show "\<exists>sock k. demo_construct [socket_address_construct ''127.0.0.1'' 4433] demo_config 0 =
       (Inr sock, Some 5, k) \<and>
     sv_connections (qs_inner sock) = Map.empty \<and>
     sv_stream_callback (qs_inner sock) = Some (Zval 1)"
    using constructor_outcomes [OF c [unfolded demo_construct_def]] by (auto simp: Let_def)
next
  obtain r c k where d: "demo_construct [] demo_config 0 = (r, c, k)"
    by (cases "demo_construct [] demo_config 0") auto
  have "pr_build demo_process n \<noteq> Inl io" for n io
    by (simp add: demo_process_def)
  then show "\<exists>c k. demo_construct [] demo_config 0 =
      (Inl (PhpException
         ''failed to initialize tokio runtime: bind requires at least one socket address'' 0
         ExceptionClass), c, k)"
    using constructor_outcomes [OF d [unfolded demo_construct_def]] d
    by (auto simp: Let_def split: sum.splits)
qed

subsection \<open>The eventfd\<close>

text \<open>C24: The socket owns exactly one descriptor, a fresh duplicate of the caller's eventfd, or none.
  A constructor that fails, at whatever point, leaves the descriptor table as it was. \<open>close\<close>
  releases the duplicate and nothing else, and a second \<open>close\<close> releases nothing.\<close>

theorem socket_owns_its_descriptor:
  assumes "eventfd_kernel kn ofd counter"
    and "socket_construct callable pr net ech cch kn sockets config efd on_stream cell k =
      (r, cell', k')"
  shows "case r of
     Inl e \<Rightarrow> ofd k' = ofd k
   | Inr sock \<Rightarrow>
       (case qs_event_fd sock of
          None \<Rightarrow> ofd k' = ofd k
        | Some fd \<Rightarrow> ofd k fd = None \<and> efd \<noteq> -1 \<and> ofd k' = (ofd k)(fd := ofd k efd)) \<and>
       (\<forall>wch pe cord mord s k2 sock' s' k3.
          socket_close wch pe kn cord mord sock s k2 = Some (sock', s', k3) \<longrightarrow>
          qs_event_fd sock' = None \<and>
          ofd k3 = (case qs_event_fd sock of None \<Rightarrow> ofd k2 | Some fd \<Rightarrow> (ofd k2)(fd := None)))"
proof -
  have adopt: "case fd of None \<Rightarrow> ofd k1 = ofd k
      | Some f \<Rightarrow> ofd k f = None \<and> efd \<noteq> -1 \<and> ofd k1 = (ofd k)(f := ofd k efd)"
    if "adopt_event_fd kn efd k = (fd, k1)" for fd k1
    using that eventfd_kernel.dup_ok [OF assms(1)] eventfd_kernel.dup_fail [OF assms(1)]
    by (fastforce simp: adopt_event_fd_def not_le split: if_splits prod.splits)
  have closed: "ofd (drop_event_fd kn fd k2) =
      (case fd of None \<Rightarrow> ofd k2 | Some f \<Rightarrow> (ofd k2)(f := None))" for fd k2
    using eventfd_kernel.close_ok(1) [OF assms(1)] by (simp add: drop_event_fd_def split: option.split)
  from assms(2) show ?thesis
  proof (cases rule: socket_construct_cases)
    case (not_bound rt e fd k1)
    then have "ofd k' = ofd k"
      using adopt [OF not_bound(4)] closed by (cases fd) (auto simp: fun_upd_idem)
    with not_bound show ?thesis by simp
  next
    case (bound rt sv fd)
    then show ?thesis
      using adopt [OF bound(4)] closed by (auto simp: socket_close_def)
  qed auto
qed

theorem socket_owns_its_descriptor_witness:
  "\<exists>sock k. demo_construct [socket_address_construct ''127.0.0.1'' 4433] demo_config 0 =
       (Inr sock, Some 5, k) \<and> qs_event_fd sock = Some 1 \<and> map_of (fdt_fds k) 1 = Some 1 \<and>
     map_of (fdt_fds k) 0 = Some 1"
proof -
  obtain sv where c: "demo_construct [socket_address_construct ''127.0.0.1'' 4433] demo_config 0 =
    (Inr \<lparr>qs_inner = sv, qs_event_fd = Some 1\<rparr>, Some 5, demo_kernel\<lparr>fdt_fds := [(1, 1), (0, 1)]\<rparr>)"
    using demo_socket [of "[socket_address_construct ''127.0.0.1'' 4433]" demo_config] by auto
  then show ?thesis
    using socket_owns_its_descriptor [OF fd_kernel.eventfd_kernel_axioms
        c [unfolded demo_construct_def]] by (auto simp: demo_kernel_def)
qed

text \<open>C25: The PHP thread that created an eventfd wakes the server through it. The socket's duplicate
  refers to the same eventfd, so the signals sent on the original descriptor are counted there;
  closing the original leaves the duplicate and its count alone. With a positive count the
  timer arm is ready, and a server with nothing else to do leaves \<open>tick\<close>.\<close>

theorem signal_wakes_the_server:
  assumes "eventfd_kernel kn ofd counter"
    and "network_eventfd_create kn k = (fd, k1)" "0 \<le> sint fd"
    and "adopt_event_fd kn (ucast fd) k1 = (Some dup, k2)"
    and "try_recv ech (ti_events inp (sv_events sv)) = Inl e1"
    and "try_recv cch (ti_closes inp (sv_closes sv)) = Inl e2" "ti_accept inp = None"
    and "ti_readable inp \<longleftrightarrow>
      (\<exists>n. ofd (network_eventfd_close kn fd (network_eventfd_signal kn fd k2)) dup = Some n \<and>
         0 < counter (network_eventfd_close kn fd (network_eventfd_signal kn fd k2)) n)"
  shows "\<exists>sv'. tick wch ech cch pe ord True (inp # inps) sv s = Some (Exited, sv', s)"
proof -
  obtain n where n: "ofd k (ucast fd) = None" "ofd k1 = (ofd k)(ucast fd \<mapsto> n)" "counter k1 n = 0"
    using eventfd_kernel.create_fresh [OF assms(1-3)] by blast
  have dup: "sys_dup kn (ucast fd) k1 = (dup, k2)" "0 \<le> sint dup"
    using assms(4) by (auto simp: adopt_event_fd_def not_less split: if_splits prod.splits)
  have "dup \<noteq> ucast fd"
    using eventfd_kernel.dup_ok [OF assms(1) dup] n(2) by auto
  have orig: "ofd k1 (ucast fd) = Some n" "counter k1 n + 1 < 2 ^ 64 - 1"
    using n by auto
  note seen = eventfd_kernel.signal_seen_through_dup [OF assms(1) dup orig]
  have "ti_readable inp"
    using eventfd_kernel.close_keeps_others [OF assms(1) seen(1) \<open>dup \<noteq> ucast fd\<close>] seen(2) assms(8)
    by auto
  then have "select_event ech cch (ti_accept inp) (Some (ti_readable inp))
      (sv\<lparr>sv_events := ti_events inp (sv_events sv), sv_closes := ti_closes inp (sv_closes sv)\<rparr>) =
    Some (TimerFired, sv\<lparr>sv_events := ti_events inp (sv_events sv),
      sv_closes := ti_closes inp (sv_closes sv)\<rparr>)"
    using assms(5-7) by (simp add: select_event_def)
  then show ?thesis by (simp add: Let_def handle_event_def)
qed

theorem signal_wakes_the_server_witness:
  "\<exists>sv'. tick fifo_mpsc fifo_mpsc fifo_mpsc example_engine sorted_list_of_set True
     [\<lparr>ti_events = id, ti_closes = id, ti_accept = None, ti_readable = True\<rparr>] demo_server
     demo_store = Some (Exited, sv', demo_store)"
proof -
  let ?k1 = "\<lparr>fdt_fds = [(1, 2), (0, 1)], fdt_counter = \<lambda>_. 0\<rparr>"
  let ?k2 = "\<lparr>fdt_fds = [(2, 2), (1, 2), (0, 1)], fdt_counter = \<lambda>_. 0\<rparr>"
  have create: "network_eventfd_create table_kernel demo_kernel = (1, ?k1)"
    by (simp add: network_eventfd_create_def table_kernel_def table_eventfd_def lowest_free_def
        demo_kernel_def fresh_object_def fun_upd_idem)
  have dup: "adopt_event_fd table_kernel (ucast (1 :: i64)) ?k1 = (Some 2, ?k2)"
    by (simp add: adopt_event_fd_def table_kernel_def table_dup_def lowest_free_def)
  have quiet: "try_recv fifo_mpsc (sv_events demo_server) = Inl RecvEmpty"
    "try_recv fifo_mpsc (sv_closes demo_server) = Inl RecvEmpty"
    by (simp_all add: demo_server_def fifo_simps)
  show ?thesis
    by (rule signal_wakes_the_server [OF fd_kernel.eventfd_kernel_axioms create _ dup])
      (simp_all add: quiet network_eventfd_close_def network_eventfd_signal_def table_kernel_def
        table_close_def table_write_def)
qed

text \<open>C38: A socket without an eventfd never comes back from \<open>tick\<close>. That is the case when the
  caller passed \<open>-1\<close>, and also when \<open>dup\<close> failed, which the constructor does not report.\<close>

theorem tick_blocks_without_eventfd:
  assumes "socket_construct callable pr net ech cch kn sockets config efd on_stream cell k =
     (Inr sock, cell', k')"
    and "efd = -1 \<or> sint (fst (sys_dup kn efd k)) < 0"
  shows "socket_tick pr wch ech cch pe ord inps sock s cell2 \<noteq> Some (Inr Exited, sock', s', cell3)"
proof -
  have "qs_event_fd sock = None"
    using assms
    by (cases rule: socket_construct_cases)
      (auto simp: adopt_event_fd_def split: if_splits prod.splits)
  then show ?thesis
    by (auto simp: socket_tick_def tick_never_exits split: prod.splits sum.splits)
qed

theorem tick_blocks_without_eventfd_witness:
  "\<exists>sock. fst (demo_construct [socket_address_construct ''::1'' 1] demo_config (-1)) = Inr sock \<and>
     socket_tick demo_process fifo_mpsc fifo_mpsc fifo_mpsc example_engine sorted_list_of_set
       [\<lparr>ti_events = id, ti_closes = id, ti_accept = None, ti_readable = True\<rparr>] sock demo_store
       (Some 5) \<noteq> Some (Inr Exited, sock, demo_store, Some 5)"
proof -
  obtain sock k where c: "demo_construct [socket_address_construct ''::1'' 1] demo_config (-1) =
      (Inr sock, Some 5, k)"
    using demo_runtime
    by (simp add: demo_construct_def socket_construct_def bind_def Let_def demo_network_def
        adopt_event_fd_def)
  then show ?thesis
    using tick_blocks_without_eventfd [OF c [unfolded demo_construct_def]] by simp
qed

end
