(* ===== verification/System.thy ===== *)
theory System
  imports Server_Correct Driver_Reads Driver_Writes
begin

text \<open>
  The running extension as one transition system: the server loop on the PHP thread, one
  driver per connection on the tokio workers, PHP code between the calls of \<open>tick\<close>, and the
  network, which may change the state of a QUIC connection at any time. A step is one operation
  of one of them.

  The step that takes a close message does not require the event channel to be empty: between
  the poll of the event channel and the poll of the close channel a driver may send into both.

  \<open>sy_accepted\<close> counts the accepted connections, and the drivers are numbered in the order in
  which their connections were accepted; the code itself has only the wrapping 64-bit counter.
\<close>

record ('wc, 'ec, 'cc, 'q) system =
  sy_server :: "('ec, 'cc) server"
  sy_store :: "'wc store"
  sy_drivers :: "nat \<rightharpoonup> driver \<times> 'q"
  sy_accepted :: nat

definition init_store :: "'wc \<Rightarrow> 'wc store" where
  "init_store c = \<lparr>st_slots = Map.empty, st_maps = (\<lambda>_. Map.empty), st_chans = (\<lambda>_. c),
     st_next = 0, st_trace = []\<rparr>"

text \<open>
  A label says which step was taken: whose driver it was, what the loop took from a channel, and
  how the network changed a connection.
\<close>

datatype 'q sys_label =
    Accepts
  | Network nat 'q 'q
  | Established nat
  | Reads nat
  | Writes nat
  | Driver_Ends nat
  | Dispatches u64 driver_event
  | Takes_Close u64 bool
  | Php_Runs
  | Closes

inductive sys_move ::
  "('wc, stream_writer) mpsc \<Rightarrow> ('ec, u64 \<times> driver_event) mpsc \<Rightarrow> ('cc, u64 \<times> bool) mpsc \<Rightarrow>
   'wc php_engine \<Rightarrow> 'q quic \<Rightarrow> 'q sys_label \<Rightarrow> ('wc, 'ec, 'cc, 'q) system \<Rightarrow>
   ('wc, 'ec, 'cc, 'q) system \<Rightarrow> bool"
  for wch ech cch pe qc where
  accept:
    "sv_listening (sy_server sy) \<Longrightarrow>
     accept_connection wch peer (sy_server sy) (sy_store sy) = ((sv, drv), s) \<Longrightarrow>
     sys_move wch ech cch pe qc Accepts sy
       (sy\<lparr>sy_server := sv, sy_store := s,
          sy_drivers := (sy_drivers sy)(sy_accepted sy \<mapsto> (drv, q)),
          sy_accepted := Suc (sy_accepted sy)\<rparr>)"
| network:
    "sy_drivers sy n = Some (d, q) \<Longrightarrow>
     sys_move wch ech cch pe qc (Network n q q') sy
       (sy\<lparr>sy_drivers := (sy_drivers sy)(n \<mapsto> (d, q'))\<rparr>)"
| established:
    "sy_drivers sy n = Some (d, q) \<Longrightarrow>
     sys_move wch ech cch pe qc (Established n) sy
       (sy\<lparr>sy_drivers := (sy_drivers sy)(n \<mapsto> (on_conn_established d, q))\<rparr>)"
| reads:
    "sy_drivers sy n = Some (d, q) \<Longrightarrow> should_act d \<Longrightarrow>
     process_reads ech qc d (sv_events (sy_server sy)) q = Some (d', c, q') \<Longrightarrow>
     sys_move wch ech cch pe qc (Reads n) sy
       (sy\<lparr>sy_server := (sy_server sy)\<lparr>sv_events := c\<rparr>,
          sy_drivers := (sy_drivers sy)(n \<mapsto> (d', q'))\<rparr>)"
| writes:
    "sy_drivers sy n = Some (d, q) \<Longrightarrow> should_act d \<Longrightarrow> hash_order ord \<Longrightarrow>
     process_writes wch qc ord d (st_chans (sy_store sy) (drv_stream_event_recv d)) q =
       Some (d', c, q') \<Longrightarrow>
     sys_move wch ech cch pe qc (Writes n) sy
       (sy\<lparr>sy_store := (sy_store sy)\<lparr>st_chans :=
            (st_chans (sy_store sy))(drv_stream_event_recv d := c)\<rparr>,
          sy_drivers := (sy_drivers sy)(n \<mapsto> (d', q'))\<rparr>)"
| driver_ends:
    "sy_drivers sy n = Some (d, q) \<Longrightarrow>
     sys_move wch ech cch pe qc (Driver_Ends n) sy
       (sy\<lparr>sy_server := (sy_server sy)\<lparr>sv_closes :=
            on_conn_close cch qc d q (sv_closes (sy_server sy))\<rparr>,
          sy_store := (sy_store sy)\<lparr>st_chans := (st_chans (sy_store sy))
            (drv_stream_event_recv d :=
               rx_drop wch (st_chans (sy_store sy) (drv_stream_event_recv d)))\<rparr>,
          sy_drivers := (sy_drivers sy)(n := None)\<rparr>)"
| dispatch:
    "try_recv ech (sv_events (sy_server sy)) = Inr ((cid, ev), c) \<Longrightarrow>
     dispatch_driver_event wch pe cid ev (sy_server sy) (sy_store sy) = Some s \<Longrightarrow>
     sys_move wch ech cch pe qc (Dispatches cid ev) sy
       (sy\<lparr>sy_server := (sy_server sy)\<lparr>sv_events := c\<rparr>, sy_store := s\<rparr>)"
| closed:
    "try_recv cch (sv_closes (sy_server sy)) = Inr ((cid, flag), c) \<Longrightarrow> hash_order ord \<Longrightarrow>
     conn_closed wch pe ord cid flag ((sy_server sy)\<lparr>sv_closes := c\<rparr>) (sy_store sy) =
       Some (sv, s) \<Longrightarrow>
     sys_move wch ech cch pe qc (Takes_Close cid flag) sy
       (sy\<lparr>sy_server := sv, sy_store := s\<rparr>)"
| php:
    "run_prog wch pe p {} (sy_store sy) = Some s \<Longrightarrow>
     sys_move wch ech cch pe qc Php_Runs sy
       (sy\<lparr>sy_store := s\<rparr>)"
| close:
    "(\<And>m. hash_order (mord m)) \<Longrightarrow>
     server_close wch pe cord mord (sy_server sy) (sy_store sy) = Some (sv, s) \<Longrightarrow>
     sys_move wch ech cch pe qc Closes sy
       (sy\<lparr>sy_server := sv, sy_store := s\<rparr>)"

definition sys_step ::
  "('wc, stream_writer) mpsc \<Rightarrow> ('ec, u64 \<times> driver_event) mpsc \<Rightarrow> ('cc, u64 \<times> bool) mpsc \<Rightarrow>
   'wc php_engine \<Rightarrow> 'q quic \<Rightarrow> ('wc, 'ec, 'cc, 'q) system \<Rightarrow> ('wc, 'ec, 'cc, 'q) system \<Rightarrow> bool" where
  "sys_step wch ech cch pe qc sy sy' \<longleftrightarrow> (\<exists>l. sys_move wch ech cch pe qc l sy sy')"

lemma sys_moveI: "sys_move wch ech cch pe qc l sy sy' \<Longrightarrow> sys_step wch ech cch pe qc sy sy'"
  by (auto simp: sys_step_def)

lemmas sys_step_accept = sys_move.accept [THEN sys_moveI]
lemmas sys_step_driver_ends = sys_move.driver_ends [THEN sys_moveI]
lemmas sys_step_php = sys_move.php [THEN sys_moveI]
lemmas sys_step_close = sys_move.close [THEN sys_moveI]

text \<open>The case distinction on a step, whatever its label.\<close>

lemma sys_step_cases [consumes 1, case_names accept network established reads writes
    driver_ends dispatch closed php close]:
  assumes "sys_step wch ech cch pe qc sy sy'"
    and "\<And>peer sv drv s q. sy' = sy\<lparr>sy_server := sv, sy_store := s,
           sy_drivers := (sy_drivers sy)(sy_accepted sy \<mapsto> (drv, q)),
           sy_accepted := Suc (sy_accepted sy)\<rparr> \<Longrightarrow>
       sv_listening (sy_server sy) \<Longrightarrow>
     accept_connection wch peer (sy_server sy) (sy_store sy) = ((sv, drv), s) \<Longrightarrow> thesis"
    and "\<And>n d q q'. sy' = sy\<lparr>sy_drivers := (sy_drivers sy)(n \<mapsto> (d, q'))\<rparr> \<Longrightarrow>
       sy_drivers sy n = Some (d, q) \<Longrightarrow> thesis"
    and "\<And>n d q. sy' = sy\<lparr>sy_drivers := (sy_drivers sy)(n \<mapsto> (on_conn_established d, q))\<rparr> \<Longrightarrow>
       sy_drivers sy n = Some (d, q) \<Longrightarrow> thesis"
    and "\<And>n d q d' c q'. sy' = sy\<lparr>sy_server := (sy_server sy)\<lparr>sv_events := c\<rparr>,
           sy_drivers := (sy_drivers sy)(n \<mapsto> (d', q'))\<rparr> \<Longrightarrow>
       sy_drivers sy n = Some (d, q) \<Longrightarrow> should_act d \<Longrightarrow>
     process_reads ech qc d (sv_events (sy_server sy)) q = Some (d', c, q') \<Longrightarrow> thesis"
    and "\<And>n d q ord d' c q'. sy' = sy\<lparr>sy_store := (sy_store sy)\<lparr>st_chans :=
             (st_chans (sy_store sy))(drv_stream_event_recv d := c)\<rparr>,
           sy_drivers := (sy_drivers sy)(n \<mapsto> (d', q'))\<rparr> \<Longrightarrow>
       sy_drivers sy n = Some (d, q) \<Longrightarrow> should_act d \<Longrightarrow> hash_order ord \<Longrightarrow>
     process_writes wch qc ord d (st_chans (sy_store sy) (drv_stream_event_recv d)) q =
       Some (d', c, q') \<Longrightarrow> thesis"
    and "\<And>n d q. sy' = sy\<lparr>sy_server := (sy_server sy)\<lparr>sv_closes :=
             on_conn_close cch qc d q (sv_closes (sy_server sy))\<rparr>,
           sy_store := (sy_store sy)\<lparr>st_chans := (st_chans (sy_store sy))
             (drv_stream_event_recv d :=
                rx_drop wch (st_chans (sy_store sy) (drv_stream_event_recv d)))\<rparr>,
           sy_drivers := (sy_drivers sy)(n := None)\<rparr> \<Longrightarrow>
       sy_drivers sy n = Some (d, q) \<Longrightarrow> thesis"
    and "\<And>cid ev c s. sy' = sy\<lparr>sy_server := (sy_server sy)\<lparr>sv_events := c\<rparr>, sy_store := s\<rparr> \<Longrightarrow>
       try_recv ech (sv_events (sy_server sy)) = Inr ((cid, ev), c) \<Longrightarrow>
     dispatch_driver_event wch pe cid ev (sy_server sy) (sy_store sy) = Some s \<Longrightarrow> thesis"
    and "\<And>cid flag c ord sv s. sy' = sy\<lparr>sy_server := sv, sy_store := s\<rparr> \<Longrightarrow>
       try_recv cch (sv_closes (sy_server sy)) = Inr ((cid, flag), c) \<Longrightarrow> hash_order ord \<Longrightarrow>
     conn_closed wch pe ord cid flag ((sy_server sy)\<lparr>sv_closes := c\<rparr>) (sy_store sy) =
       Some (sv, s) \<Longrightarrow> thesis"
    and "\<And>p s. sy' = sy\<lparr>sy_store := s\<rparr> \<Longrightarrow>
       run_prog wch pe p {} (sy_store sy) = Some s \<Longrightarrow> thesis"
    and "\<And>mord cord sv s. sy' = sy\<lparr>sy_server := sv, sy_store := s\<rparr> \<Longrightarrow>
       (\<And>m. hash_order (mord m)) \<Longrightarrow>
     server_close wch pe cord mord (sy_server sy) (sy_store sy) = Some (sv, s) \<Longrightarrow> thesis"
  shows thesis
  using assms(1) unfolding sys_step_def
  by (elim exE sys_move.cases) (simp_all add: assms(2-10), use assms(11) in blast)

text \<open>A freshly bound server, with nothing in the store.\<close>

definition initial ::
  "('ec, u64 \<times> driver_event) mpsc \<Rightarrow> ('cc, u64 \<times> bool) mpsc \<Rightarrow> ('wc, 'ec, 'cc, 'q) system \<Rightarrow>
   bool" where
  "initial ech cch sy \<longleftrightarrow>
     (\<exists>cb. sy_server sy =
        \<lparr>sv_listening = True, sv_connections = Map.empty, sv_id_counter = 0,
         sv_stream_callback = cb,
         sv_events = mpsc_channel ech SERVER_EVENT_CHANNEL_CAPACITY,
         sv_closes = mpsc_channel cch CONN_CLOSE_CHANNEL_CAPACITY\<rparr>) \<and>
     (\<exists>c. sy_store sy = init_store c) \<and> sy_drivers sy = Map.empty \<and> sy_accepted sy = 0"

inductive reachable ::
  "('wc, stream_writer) mpsc \<Rightarrow> ('ec, u64 \<times> driver_event) mpsc \<Rightarrow> ('cc, u64 \<times> bool) mpsc \<Rightarrow>
   'wc php_engine \<Rightarrow> 'q quic \<Rightarrow> ('wc, 'ec, 'cc, 'q) system \<Rightarrow> bool"
  for wch ech cch pe qc where
  start: "initial ech cch sy \<Longrightarrow> reachable wch ech cch pe qc sy"
| step: "reachable wch ech cch pe qc sy \<Longrightarrow> sys_step wch ech cch pe qc sy sy' \<Longrightarrow>
    reachable wch ech cch pe qc sy'"

lemma reachable_iff:
  "reachable wch ech cch pe qc sy \<longleftrightarrow>
     (\<exists>sy0. initial ech cch sy0 \<and> (sys_step wch ech cch pe qc)\<^sup>*\<^sup>* sy0 sy)"
proof
  assume "reachable wch ech cch pe qc sy"
  then show "\<exists>sy0. initial ech cch sy0 \<and> (sys_step wch ech cch pe qc)\<^sup>*\<^sup>* sy0 sy"
    by (induction rule: reachable.induct) (blast intro: rtranclp.rtrancl_into_rtrancl)+
next
  assume "\<exists>sy0. initial ech cch sy0 \<and> (sys_step wch ech cch pe qc)\<^sup>*\<^sup>* sy0 sy"
  then obtain sy0 where "initial ech cch sy0" "(sys_step wch ech cch pe qc)\<^sup>*\<^sup>* sy0 sy" by blast
  from this(2,1) show "reachable wch ech cch pe qc sy"
    by (induction rule: rtranclp_induct) (blast intro: reachable.intros)+
qed

text \<open>The store's free address only grows.\<close>

interpretation next_mono: connection_invariant wch callable "\<lambda>s. k \<le> st_next s"
  for wch :: "('wc, stream_writer) mpsc" and callable k
  by unfold_locales (auto dest: build_simps(14))

text \<open>
  An invariant of the store under the server loop: every step keeps it, but for the two steps of a
  driver that change its write channel. If no channel matters for it, those keep it too.
\<close>

context server_invariant
begin

lemma sys_step_cases_inv:
  assumes "pe_callable pe = callable" "inv (sy_store sy)" "sys_step wch ech cch pe qc sy sy'"
  obtains (kept) "inv (sy_store sy')"
  | (flushed) n d q ord d' c q' where "sy_drivers sy n = Some (d, q)"
      "process_writes wch qc ord d (st_chans (sy_store sy) (drv_stream_event_recv d)) q =
         Some (d', c, q')"
      "sy_store sy' = (sy_store sy)\<lparr>st_chans :=
         (st_chans (sy_store sy))(drv_stream_event_recv d := c)\<rparr>"
      "sy_drivers sy' = (sy_drivers sy)(n \<mapsto> (d', q'))"
  | (dropped) n d q where "sy_drivers sy n = Some (d, q)"
      "sy_store sy' = (sy_store sy)\<lparr>st_chans := (st_chans (sy_store sy))
         (drv_stream_event_recv d :=
            rx_drop wch (st_chans (sy_store sy) (drv_stream_event_recv d)))\<rparr>"
      "sy_drivers sy' = (sy_drivers sy)(n := None)"
  using assms(3)
proof (cases rule: sys_step_cases)
  case (accept peer sv drv s q)
  then show thesis
    using inv_build [OF assms(2)]
    by (intro kept) (auto simp: accept_connection_def Let_def split: prod.splits)
next
  case (dispatch cid ev c s)
  then have "inv s" using dispatch_driver_event_inv [OF assms(1) _ assms(2)] by blast
  with dispatch(1) show thesis by (intro kept) simp
next
  case (closed cid flag c ord sv s)
  then have "inv s" using conn_closed_inv [OF assms(1) _ _ assms(2)] by blast
  with closed(1) show thesis by (intro kept) simp
next
  case (php p s)
  then have "inv s" using run_prog_inv [OF assms(1) _ assms(2)] by blast
  with php(1) show thesis by (intro kept) simp
next
  case (close mord cord sv s)
  then have "inv s" using server_close_inv [OF assms(1) close(2,3) assms(2)] by blast
  with close(1) show thesis by (intro kept) simp
next
  case (writes n d q ord d' c q')
  then show thesis by (intro flushed [OF writes(2,5)]) simp_all
next
  case (driver_ends n d q)
  then show thesis by (intro dropped [OF driver_ends(2)]) simp_all
qed (rule kept, use assms(2) in simp)+

lemma sys_step_inv:
  assumes "pe_callable pe = callable" "\<And>s ch. inv s \<Longrightarrow> inv (s\<lparr>st_chans := ch\<rparr>)"
    and "inv (sy_store sy)" "sys_step wch ech cch pe qc sy sy'"
  shows "inv (sy_store sy')"
  using assms(1,3,4)
proof (cases rule: sys_step_cases_inv)
  case kept
  then show ?thesis .
next
  case (flushed n d q ord d' c q')
  then show ?thesis using assms(2) [OF assms(3)] by simp
next
  case (dropped n d q)
  then show ?thesis using assms(2) [OF assms(3)] by simp
qed

end

subsection \<open>Callback slots in every reachable state\<close>

interpretation once: inductive_invariant "initial ech cch" "sys_step wch ech cch pe qc"
    "\<lambda>sy. callbacks_ok (sy_store sy)"
  for wch :: "('wc, stream_writer) mpsc" and ech :: "('ec, u64 \<times> driver_event) mpsc"
    and cch :: "('cc, u64 \<times> bool) mpsc" and pe and qc :: "'q quic"
proof unfold_locales
  fix sy sy' :: "('wc, 'ec, 'cc, 'q) system"
  assume "callbacks_ok (sy_store sy)" "sys_step wch ech cch pe qc sy sy'"
  then show "callbacks_ok (sy_store sy')"
    by (rule callbacks.sys_step_inv [OF refl, rotated]) (simp add: callbacks_ok_def slots_inv_def)
qed (auto simp: initial_def init_store_def callbacks_ok_def slots_inv_def maps_finite_def
    fired_def map_filter_simps)

subsection \<open>How server, drivers and store are linked\<close>

text \<open>
  \<open>links drs n\<close> is what ties driver \<open>n\<close> to the rest: its id, the write channel it reads and
  its \<open>Notify\<close>. \<open>linked sy\<close>: the counter is the number of accepted connections; every record
  of the server is numbered below it, is consistent with the handle that PHP objects copy, and
  has a callback map of its own; every driver carries the id it was accepted with and reads from
  a write channel of its own; and as long as no id was given out twice, the record and the driver
  of a connection share the write channel and the \<open>Notify\<close>.
\<close>

definition links :: "(nat \<rightharpoonup> driver \<times> 'q) \<Rightarrow> nat \<rightharpoonup> u64 \<times> addr \<times> addr" where
  "links drs n = map_option
     (\<lambda>(d, q). (drv_conn_id d, drv_stream_event_recv d, drv_write_notify d)) (drs n)"

definition records_ok :: "nat \<Rightarrow> addr \<Rightarrow> (u64 \<rightharpoonup> conn_state) \<Rightarrow> bool" where
  "records_ok acc k conns \<longleftrightarrow> finite (dom conns) \<and>
     (\<forall>i st. conns i = Some st \<longrightarrow> unat i < acc \<and> cs_callbacks st < k \<and>
        coh_conn_id (cs_open_handle st) = i \<and>
        coh_peer_addr (cs_open_handle st) = cs_peer_addr st \<and>
        coh_callbacks (cs_open_handle st) = cs_callbacks st) \<and>
     (\<forall>i st j st'. conns i = Some st \<longrightarrow> conns j = Some st' \<longrightarrow>
        cs_callbacks st = cs_callbacks st' \<longrightarrow> i = j)"

definition drivers_ok :: "nat \<Rightarrow> addr \<Rightarrow> (nat \<rightharpoonup> u64 \<times> addr \<times> addr) \<Rightarrow> bool" where
  "drivers_ok acc k ls \<longleftrightarrow>
     (\<forall>n i w t. ls n = Some (i, w, t) \<longrightarrow> n < acc \<and> i = word_of_nat n \<and> w < k) \<and>
     (\<forall>n i w t m i' t'. ls n = Some (i, w, t) \<longrightarrow> ls m = Some (i', w, t') \<longrightarrow> n = m)"

definition wired :: "(u64 \<rightharpoonup> conn_state) \<Rightarrow> (nat \<rightharpoonup> u64 \<times> addr \<times> addr) \<Rightarrow> bool" where
  "wired conns ls \<longleftrightarrow>
     (\<forall>n i w t st. ls n = Some (i, w, t) \<longrightarrow> conns (word_of_nat n) = Some st \<longrightarrow>
        coh_write_tx (cs_open_handle st) = w \<and> coh_write_notify (cs_open_handle st) = t)"

definition linked :: "('wc, 'ec, 'cc, 'q) system \<Rightarrow> bool" where
  "linked sy \<longleftrightarrow>
     sv_id_counter (sy_server sy) = word_of_nat (sy_accepted sy) \<and>
     records_ok (sy_accepted sy) (st_next (sy_store sy)) (sv_connections (sy_server sy)) \<and>
     drivers_ok (sy_accepted sy) (st_next (sy_store sy)) (links (sy_drivers sy)) \<and>
     (sy_accepted sy \<le> 2 ^ 64 \<longrightarrow> wired (sv_connections (sy_server sy)) (links (sy_drivers sy)))"

lemma links_upd:
  "links (drs(n \<mapsto> (d, q))) =
     (links drs)(n \<mapsto> (drv_conn_id d, drv_stream_event_recv d, drv_write_notify d))"
  "links (drs(n := None)) = (links drs)(n := None)"
  by (auto simp: links_def)

lemma links_same:
  assumes "drs n = Some (d, q)" "drv_conn_id d' = drv_conn_id d"
    "drv_stream_event_recv d' = drv_stream_event_recv d" "drv_write_notify d' = drv_write_notify d"
  shows "links (drs(n \<mapsto> (d', q'))) = links drs"
  using assms by (auto simp: links_def)

lemma submapD: "m' \<subseteq>\<^sub>m m \<Longrightarrow> m' i = Some x \<Longrightarrow> m i = Some x"
  by (auto simp: map_le_def dom_def)

lemma records_ok_mono:
  "records_ok acc k conns \<Longrightarrow> acc \<le> acc' \<Longrightarrow> k \<le> k' \<Longrightarrow> records_ok acc' k' conns"
  unfolding records_ok_def by (meson less_le_trans)

lemma records_ok_submap:
  "records_ok acc k conns \<Longrightarrow> conns' \<subseteq>\<^sub>m conns \<Longrightarrow> records_ok acc k conns'"
  unfolding records_ok_def by (meson finite_subset map_le_implies_dom_le submapD)

lemma records_ok_insert:
  assumes "records_ok acc k conns" "unat i < acc" "k \<le> cs_callbacks st" "cs_callbacks st < k'"
    and "coh_conn_id (cs_open_handle st) = i" "coh_peer_addr (cs_open_handle st) = cs_peer_addr st"
    and "coh_callbacks (cs_open_handle st) = cs_callbacks st"
  shows "records_ok acc k' (conns(i \<mapsto> st))"
  using assms unfolding records_ok_def by (fastforce split: if_splits)

lemma drivers_ok_mono:
  "drivers_ok acc k ls \<Longrightarrow> acc \<le> acc' \<Longrightarrow> k \<le> k' \<Longrightarrow> drivers_ok acc' k' ls"
  unfolding drivers_ok_def by (meson less_le_trans)

lemma drivers_ok_submap: "drivers_ok acc k ls \<Longrightarrow> ls' \<subseteq>\<^sub>m ls \<Longrightarrow> drivers_ok acc k ls'"
  unfolding drivers_ok_def by (meson submapD)

lemma drivers_ok_insert:
  assumes "drivers_ok n k ls" "k \<le> w" "w < k'"
  shows "drivers_ok (Suc n) k' (ls(n \<mapsto> (word_of_nat n, w, t)))"
  using assms unfolding drivers_ok_def by (fastforce split: if_splits intro: less_SucI)

lemma wired_submap: "wired conns ls \<Longrightarrow> conns' \<subseteq>\<^sub>m conns \<Longrightarrow> ls' \<subseteq>\<^sub>m ls \<Longrightarrow> wired conns' ls'"
  unfolding wired_def by (meson submapD)

lemma word_of_nat_neq: "m < n \<Longrightarrow> n < 2 ^ 64 \<Longrightarrow> (word_of_nat m :: u64) \<noteq> word_of_nat n"
  by (auto dest!: arg_cong [where f = "unat :: u64 \<Rightarrow> nat"] simp: unat_of_nat)

lemma wired_insert:
  assumes "wired conns ls" "drivers_ok n k ls" "n < 2 ^ 64"
    and "coh_write_tx (cs_open_handle st) = w" "coh_write_notify (cs_open_handle st) = t"
  shows "wired (conns(word_of_nat n \<mapsto> st)) (ls(n \<mapsto> (word_of_nat n, w, t)))"
proof -
  have "(word_of_nat m :: u64) \<noteq> word_of_nat n" if "ls m = Some l" for m l
    using assms(2,3) that word_of_nat_neq [of m n] by (cases l) (auto simp: drivers_ok_def)
  then show ?thesis
    using assms(1,4,5) unfolding wired_def by (auto split: if_splits)
qed

lemma linked_frame:
  assumes "linked sy" "sv_id_counter sv = sv_id_counter (sy_server sy)"
    and "sv_connections sv \<subseteq>\<^sub>m sv_connections (sy_server sy)"
    and "links drs \<subseteq>\<^sub>m links (sy_drivers sy)" "st_next (sy_store sy) \<le> st_next s"
  shows "linked (sy\<lparr>sy_server := sv, sy_store := s, sy_drivers := drs\<rparr>)"
  using assms wired_submap [OF _ assms(3,4)]
    records_ok_mono [OF records_ok_submap [OF _ assms(3)] order_refl assms(5)]
    drivers_ok_mono [OF drivers_ok_submap [OF _ assms(4)] order_refl assms(5)]
  by (simp add: linked_def)

lemma linked_accept:
  assumes "linked sy"
    and "accept_connection wch peer (sy_server sy) (sy_store sy) = ((sv, drv), s)"
  shows "linked (sy\<lparr>sy_server := sv, sy_store := s,
    sy_drivers := (sy_drivers sy)(sy_accepted sy \<mapsto> (drv, q)),
    sy_accepted := Suc (sy_accepted sy)\<rparr>)"
proof -
  let ?n = "sy_accepted sy" and ?k = "st_next (sy_store sy)" and ?sv = "sy_server sy"
  obtain state s1 where b: "build wch (word_of_nat ?n) peer (sy_store sy) = ((state, drv), s1)"
    and s: "s = emit (Started drv) s1"
    and sv: "sv = ?sv\<lparr>sv_id_counter := word_of_nat ?n + 1,
      sv_connections := (sv_connections ?sv)(word_of_nat ?n \<mapsto> state)\<rparr>"
    using assms by (auto simp: accept_connection_def Let_def linked_def split: prod.splits)
  note b = build_simps [OF b]
  note old = assms(1) [unfolded linked_def]
  have k: "st_next s = ?k + 3" using b(14) s by simp
  have "unat (word_of_nat ?n :: u64) < Suc ?n"
    by (simp add: unat_of_nat less_Suc_eq_le)
  then have "records_ok (Suc ?n) (st_next s) ((sv_connections ?sv)(word_of_nat ?n \<mapsto> state))"
    using records_ok_mono [of ?n ?k "sv_connections ?sv" "Suc ?n" ?k] old b k
    by (intro records_ok_insert [of _ ?k]) auto
  moreover have "drivers_ok (Suc ?n) (st_next s) (links ((sy_drivers sy)(?n \<mapsto> (drv, q))))"
    using old b k by (auto simp: links_upd intro!: drivers_ok_insert)
  moreover have "wired ((sv_connections ?sv)(word_of_nat ?n \<mapsto> state))
      (links ((sy_drivers sy)(?n \<mapsto> (drv, q))))" if "Suc ?n \<le> 2 ^ 64"
    using old b that by (auto simp: links_upd intro!: wired_insert)
  ultimately show ?thesis
    using sv by (simp add: linked_def)
qed

lemma conn_closed_frame:
  assumes "conn_closed wch pe ord cid flag sv s = Some (sv', s')"
  shows "sv_id_counter sv' = sv_id_counter sv \<and> sv_connections sv' \<subseteq>\<^sub>m sv_connections sv"
  using assms by (auto simp: conn_closed_def map_le_def split: option.splits if_splits)

lemma server_close_frame:
  assumes "server_close wch pe cord mord sv s = Some (sv', s')"
  shows "sv_id_counter sv' = sv_id_counter sv \<and> sv_connections sv' \<subseteq>\<^sub>m sv_connections sv"
  using assms by (auto simp: server_close_def split: option.splits)

lemma links_step:
  assumes "drs n = Some (d, q)"
  shows "links (drs(n := None)) \<subseteq>\<^sub>m links drs"
    "links (drs(n \<mapsto> (d, q'))) \<subseteq>\<^sub>m links drs"
    "links (drs(n \<mapsto> (on_conn_established d, q'))) \<subseteq>\<^sub>m links drs"
    "process_reads ech qc d c q = Some (d', c', q') \<Longrightarrow> links (drs(n \<mapsto> (d', q''))) \<subseteq>\<^sub>m links drs"
    "process_writes wch qc ord d w q = Some (d', w', q') \<Longrightarrow>
       links (drs(n \<mapsto> (d', q''))) \<subseteq>\<^sub>m links drs"
proof -
  have same: "links (drs(n \<mapsto> (e, r))) \<subseteq>\<^sub>m links drs"
    if "drv_conn_id e = drv_conn_id d" "drv_stream_event_recv e = drv_stream_event_recv d"
      "drv_write_notify e = drv_write_notify d" for e r
    using links_same [where drs = drs, OF assms that] by simp
  show "links (drs(n := None)) \<subseteq>\<^sub>m links drs" by (simp add: links_upd map_le_def)
  show "links (drs(n \<mapsto> (d, q'))) \<subseteq>\<^sub>m links drs"
    "links (drs(n \<mapsto> (on_conn_established d, q'))) \<subseteq>\<^sub>m links drs"
    by (rule same; simp add: on_conn_established_def)+
  show "links (drs(n \<mapsto> (d', q''))) \<subseteq>\<^sub>m links drs"
    if "process_reads ech qc d c q = Some (d', c', q')"
  proof (rule same)
    have "reads_frame d d'"
      using read_loop_frame that by (fastforce simp: process_reads_def)
    then show "drv_conn_id d' = drv_conn_id d"
      "drv_stream_event_recv d' = drv_stream_event_recv d" "drv_write_notify d' = drv_write_notify d"
      by (cases d; cases d'; simp add: reads_frame_def)+
  qed
  show "links (drs(n \<mapsto> (d', q''))) \<subseteq>\<^sub>m links drs"
    if "process_writes wch qc ord d w q = Some (d', w', q')"
    using that by (intro same) (auto simp: process_writes_def bind_Some_iff split: prod.splits)
qed

interpretation links: inductive_invariant "initial ech cch" "sys_step wch ech cch pe qc" linked
  for wch :: "('wc, stream_writer) mpsc" and ech :: "('ec, u64 \<times> driver_event) mpsc"
    and cch :: "('cc, u64 \<times> bool) mpsc" and pe and qc :: "'q quic"
proof unfold_locales
  fix sy :: "('wc, 'ec, 'cc, 'q) system"
  assume "initial ech cch sy"
  then show "linked sy"
    by (auto simp: initial_def linked_def records_ok_def drivers_ok_def wired_def links_def)
next
  fix sy sy' :: "('wc, 'ec, 'cc, 'q) system"
  assume ok: "linked sy" and step: "sys_step wch ech cch pe qc sy sy'"
  let ?sv = "sy_server sy" and ?s = "sy_store sy" and ?drs = "sy_drivers sy"
  have same: "sy\<lparr>sy_server := ?sv\<rparr> = sy" "sy\<lparr>sy_store := ?s\<rparr> = sy" "sy\<lparr>sy_drivers := ?drs\<rparr> = sy"
    by simp_all
  from step show "linked sy'"
  proof (cases rule: sys_step_cases)
    case (accept peer sv drv s q)
    then show ?thesis using linked_accept [OF ok accept(3)] by simp
  next
    case (network n d q q')
    then show ?thesis
      using linked_frame [OF ok refl map_le_refl links_step(2) [where drs = ?drs, OF network(2)] order_refl] by simp
  next
    case (established n d q)
    then show ?thesis
      using linked_frame [OF ok refl map_le_refl links_step(3) [where drs = ?drs, OF established(2)] order_refl] by simp
  next
    case (reads n d q d' c q')
    then show ?thesis
      using linked_frame [OF ok _ _ links_step(4) [where drs = ?drs, OF reads(2,4)], of "?sv\<lparr>sv_events := c\<rparr>" ?s] by simp
  next
    case (writes n d q ord d' c q')
    then show ?thesis
      using linked_frame [OF ok _ _ links_step(5) [where drs = ?drs, OF writes(2,5)], of ?sv "?s\<lparr>st_chans :=
        (st_chans ?s)(drv_stream_event_recv d := c)\<rparr>"] by simp
  next
    case (driver_ends n d q)
    then show ?thesis
      using linked_frame [OF ok _ _ links_step(1) [where drs = ?drs, OF driver_ends(2)],
          of "?sv\<lparr>sv_closes := x\<rparr>" "?s\<lparr>st_chans := y\<rparr>" for x y] by simp
  next
    case (dispatch cid ev c s)
    then show ?thesis
      using linked_frame [OF ok _ _ map_le_refl
          next_mono.dispatch_driver_event_inv [OF refl dispatch(3) order_refl],
          of "?sv\<lparr>sv_events := c\<rparr>"] by simp
  next
    case (closed cid flag c ord sv s)
    then show ?thesis
      using linked_frame [OF ok _ _ map_le_refl
          next_mono.conn_closed_inv [OF refl closed(3,4) order_refl], of sv]
        conn_closed_frame [OF closed(4)] by simp
  next
    case (php p s)
    then show ?thesis
      using linked_frame [OF ok refl map_le_refl map_le_refl
          next_mono.run_prog_inv [OF refl php(2) order_refl]] by simp
  next
    case (close mord cord sv s)
    then show ?thesis
      using linked_frame [OF ok _ _ map_le_refl
          next_mono.server_close_inv [OF refl close(2,3) order_refl], of sv]
        server_close_frame [OF close(3)] by simp
  qed
qed

text \<open>No two drivers read the same write channel.\<close>

lemma recv_distinct:
  assumes "linked sy" "sy_drivers sy n = Some (d, q)" "sy_drivers sy m = Some (e, r)" "m \<noteq> n"
  shows "drv_stream_event_recv e \<noteq> drv_stream_event_recv d"
proof
  assume "drv_stream_event_recv e = drv_stream_event_recv d"
  then have "links (sy_drivers sy) n = Some (drv_conn_id d, drv_stream_event_recv d, drv_write_notify d)"
    "links (sy_drivers sy) m = Some (drv_conn_id e, drv_stream_event_recv d, drv_write_notify e)"
    using assms(2,3) by (simp_all add: links_def)
  with assms(1,4) show False unfolding linked_def drivers_ok_def by metis
qed

text \<open>
  A driver after a step is new, and then its channel is fresh, or it reads the channel it had read.
\<close>

lemma sys_step_drivers:
  assumes "sys_step wch ech cch pe qc sy sy'" "sy_drivers sy' n = Some (d', q')"
  obtains (fresh) "n = sy_accepted sy" "sy_accepted sy' = Suc n"
      "drv_stream_event_recv d' = st_next (sy_store sy)"
      "st_chans (sy_store sy') =
         (st_chans (sy_store sy))(st_next (sy_store sy) := mpsc_channel wch WRITE_CHANNEL_CAPACITY)"
  | (old) d q where "sy_drivers sy n = Some (d, q)"
      "drv_stream_event_recv d' = drv_stream_event_recv d" "drv_conn_id d' = drv_conn_id d"
proof -
  have old_link: thesis if "links (sy_drivers sy') \<subseteq>\<^sub>m links (sy_drivers sy)"
  proof -
    have "links (sy_drivers sy') n = Some (drv_conn_id d', drv_stream_event_recv d', drv_write_notify d')"
      using assms(2) by (simp add: links_def)
    from submapD [OF that this] show thesis by (auto simp: links_def intro: old)
  qed
  from assms(1) show thesis
  proof (cases rule: sys_step_cases)
    case (accept peer sv drv s q)
    then obtain st s1 where b: "build wch (sv_id_counter (sy_server sy)) peer (sy_store sy) = ((st, drv), s1)"
      "s = emit (Started drv) s1"
      by (auto simp: accept_connection_def Let_def split: prod.splits)
    show thesis
    proof (cases "n = sy_accepted sy")
      case True
      then show thesis
        using accept(1) assms(2) build_simps(5,13) [OF b(1)] b(2) by (intro fresh) auto
    next
      case False
      then show thesis using accept(1) assms(2) old by auto
    qed
  next
    case (network n d q q')
    then show thesis using links_step(2) [where drs = "sy_drivers sy", OF network(2)] by (intro old_link) simp
  next
    case (established n d q)
    then show thesis using links_step(3) [where drs = "sy_drivers sy", OF established(2)] by (intro old_link) simp
  next
    case (reads n d q d' c q')
    then show thesis using links_step(4) [where drs = "sy_drivers sy", OF reads(2,4)] by (intro old_link) simp
  next
    case (writes n d q ord d' c q')
    then show thesis using links_step(5) [where drs = "sy_drivers sy", OF writes(2,5)] by (intro old_link) simp
  next
    case (driver_ends n d q)
    then show thesis using links_step(1) [where drs = "sy_drivers sy", OF driver_ends(2)] by (intro old_link) simp
  qed (intro old_link, simp)+
qed

subsection \<open>Properties\<close>

lemma reachable_callbacks: "reachable wch ech cch pe qc sy \<Longrightarrow> callbacks_ok (sy_store sy)"
  unfolding reachable_iff by (blast dest: once.inv_rtranclp)

lemma reachable_linked: "reachable wch ech cch pe qc sy \<Longrightarrow> linked sy"
  unfolding reachable_iff by (blast dest: links.inv_rtranclp)

text \<open>
  The number a new connection gets is free, as long as fewer than \<open>2 ^ 64\<close> connections have been
  accepted: no record and no driver has it.
\<close>

lemma accept_takes_free_id:
  assumes "reachable wch ech cch pe qc sy" "sy_accepted sy < 2 ^ 64"
    and "accept_connection wch peer (sy_server sy) (sy_store sy) = ((sv, drv), s)"
  shows "sv_connections (sy_server sy) (drv_conn_id drv) = None \<and>
     (\<forall>n d q. sy_drivers sy n = Some (d, q) \<longrightarrow> drv_conn_id d \<noteq> drv_conn_id drv) \<and>
     unat (drv_conn_id drv) = sy_accepted sy \<and>
     dom (sv_connections sv) = insert (drv_conn_id drv) (dom (sv_connections (sy_server sy)))"
proof -
  let ?n = "sy_accepted sy"
  note ok = reachable_linked [OF assms(1), unfolded linked_def]
  obtain state s1 where b: "build wch (word_of_nat ?n) peer (sy_store sy) = ((state, drv), s1)"
    and sv: "sv_connections sv = (sv_connections (sy_server sy))(word_of_nat ?n \<mapsto> state)"
    using assms(3) ok by (auto simp: accept_connection_def Let_def split: prod.splits)
  have id: "drv_conn_id drv = word_of_nat ?n" using build_simps(4) [OF b] .
  have "unat (word_of_nat ?n :: u64) = ?n" using assms(2) by (simp add: unat_of_nat)
  then have "sv_connections (sy_server sy) (word_of_nat ?n) = None"
    using ok unfolding records_ok_def by (metis less_irrefl not_Some_eq)
  moreover have "drv_conn_id d \<noteq> word_of_nat ?n" if "sy_drivers sy n = Some (d, q)" for n d q
  proof -
    have "links (sy_drivers sy) n =
        Some (drv_conn_id d, drv_stream_event_recv d, drv_write_notify d)"
      using that by (simp add: links_def)
    then have "n < ?n" "drv_conn_id d = word_of_nat n"
      using ok unfolding drivers_ok_def by blast+
    then show ?thesis using word_of_nat_neq assms(2) by simp
  qed
  ultimately show ?thesis using id sv \<open>unat (word_of_nat ?n :: u64) = ?n\<close> by simp
qed

text \<open>
  A concrete run: a server accepts one connection, PHP opens a stream on it and installs an
  \<open>on_close\<close> callback, and the server is closed.
\<close>

type_synonym demo_system =
  "(stream_writer fifo, (u64 \<times> driver_event) fifo, (u64 \<times> bool) fifo, ref_conn) system"

definition demo_initial :: demo_system where
  "demo_initial =
     \<lparr>sy_server = \<lparr>sv_listening = True, sv_connections = Map.empty, sv_id_counter = 0,
        sv_stream_callback = None,
        sv_events = mpsc_channel fifo_mpsc SERVER_EVENT_CHANNEL_CAPACITY,
        sv_closes = mpsc_channel fifo_mpsc CONN_CLOSE_CHANNEL_CAPACITY\<rparr>,
      sy_store = init_store (mpsc_channel fifo_mpsc WRITE_CHANNEL_CAPACITY),
      sy_drivers = Map.empty, sy_accepted = 0\<rparr>"

definition demo_prog :: php_prog where
  "demo_prog = Call (OpenBidiStream (incoming_bidi 0 0
       \<lparr>cs_peer_addr = [], cs_callbacks = 2, cs_open_handle = example_handle\<rparr> 0 0) 1)
     (\<lambda>r. case r of PhpObject obj \<Rightarrow> Call (SetOnClose obj (Zval 6)) (\<lambda>_. Done) | _ \<Rightarrow> Done)"

lemma demo_accepted:
  obtains sy :: demo_system and st d
  where "reachable fifo_mpsc fifo_mpsc fifo_mpsc example_engine ref_quic sy"
    "sy_accepted sy = 1" "sv_connections (sy_server sy) = [0 \<mapsto> st]" "cs_callbacks st = 2"
    "sy_drivers sy 0 = Some (d, example_conn)" "drv_conn_id d = 0" "sv_listening (sy_server sy)"
    "st_maps (sy_store sy) = (\<lambda>_. Map.empty)" "st_next (sy_store sy) = 3"
    "st_slots (sy_store sy) = Map.empty" "fifo_items (sv_events (sy_server sy)) = []"
    "fifo_live (st_chans (sy_store sy) (drv_stream_event_recv d))"
    "length (drv_io_worker_buf d) = STREAM_BUFFER_SIZE" "fifo_items (sv_closes (sy_server sy)) = []"
    "st_trace (sy_store sy) = [Started d]"
proof -
  obtain st d s where b: "build fifo_mpsc 0 [] (sy_store demo_initial) = ((st, d), s)"
    by (metis prod.exhaust)
  note bs = build_simps [OF b]
  let ?sv = "(sy_server demo_initial)\<lparr>sv_id_counter := 1, sv_connections := [0 \<mapsto> st]\<rparr>"
  have acc: "accept_connection fifo_mpsc [] (sy_server demo_initial) (sy_store demo_initial) =
      ((?sv, d), emit (Started d) s)"
    using b by (simp add: accept_connection_def demo_initial_def)
  have "initial fifo_mpsc fifo_mpsc demo_initial"
    by (auto simp: initial_def demo_initial_def)
  moreover have "sv_listening (sy_server demo_initial)"
    by (simp add: demo_initial_def)
  ultimately have "reachable fifo_mpsc fifo_mpsc fifo_mpsc example_engine ref_quic
      (demo_initial\<lparr>sy_server := ?sv, sy_store := emit (Started d) s,
         sy_drivers := (sy_drivers demo_initial)(sy_accepted demo_initial \<mapsto> (d, example_conn)),
         sy_accepted := Suc (sy_accepted demo_initial)\<rparr>)"
    by (intro reachable.step [OF reachable.start sys_step_accept [OF _ acc]])
  then show thesis
    using bs by (intro that) (auto simp: demo_initial_def init_store_def fifo_mpsc_def)
qed

lemma demo_stream:
  obtains sy :: demo_system and st
  where "reachable fifo_mpsc fifo_mpsc fifo_mpsc example_engine ref_quic sy"
    "sv_connections (sy_server sy) = [0 \<mapsto> st]" "cs_callbacks st = 2"
    "st_maps (sy_store sy) 2 1 = Some \<lparr>ss_on_data = 3, ss_on_close = 4\<rparr>"
    "installed (pe_callable (example_engine :: stream_writer fifo php_engine)) 4 (sy_store sy)"
proof (rule demo_accepted)
  fix sy :: demo_system and st d
  assume sy: "reachable fifo_mpsc fifo_mpsc fifo_mpsc example_engine ref_quic sy"
    "sv_connections (sy_server sy) = [0 \<mapsto> st]" "cs_callbacks st = 2"
    "st_maps (sy_store sy) = (\<lambda>_. Map.empty)" "st_next (sy_store sy) = 3"
    "st_slots (sy_store sy) = Map.empty"
  let ?s = "(register_stream 2 1 (sy_store sy))\<lparr>st_slots :=
    (st_slots (register_stream 2 1 (sy_store sy)))(4 \<mapsto> Zval 6)\<rparr>"
  have "run_prog fifo_mpsc example_engine demo_prog {} (sy_store sy) = Some ?s"
    using sy(5) by (simp add: demo_prog_def incoming_bidi_def example_handle_def stream_defs
        prepare_bidi_stream_eq install_slot_def example_engine_def del: register_stream_simps(1))
  then have r: "reachable fifo_mpsc fifo_mpsc fifo_mpsc example_engine ref_quic
      (sy\<lparr>sy_store := ?s\<rparr>)"
    by (rule reachable.step [OF sy(1) sys_step_php])
  show thesis
    by (rule that [where st = st, OF r])
      (use sy(2-6) in \<open>auto simp: installed_def slots_callable_def example_engine_def\<close>)
qed

lemma demo_closed:
  obtains sy :: demo_system
  where "reachable fifo_mpsc fifo_mpsc fifo_mpsc example_engine ref_quic sy" "fires False 4 (sy_store sy)"
proof (rule demo_stream)
  fix sy :: demo_system and st
  assume sy: "reachable fifo_mpsc fifo_mpsc fifo_mpsc example_engine ref_quic sy"
    "sv_connections (sy_server sy) = [0 \<mapsto> st]" "cs_callbacks st = 2"
    "st_maps (sy_store sy) 2 1 = Some \<lparr>ss_on_data = 3, ss_on_close = 4\<rparr>"
    "installed (pe_callable (example_engine :: stream_writer fifo php_engine)) 4 (sy_store sy)"
  have conn: "st \<in> ran (sv_connections (sy_server sy))" "finite (dom (sv_connections (sy_server sy)))"
    "\<lparr>ss_on_data = 3, ss_on_close = 4\<rparr> \<in> ran (st_maps (sy_store sy) (cs_callbacks st))"
    using sy(2-4) by (auto simp: ran_def)
  obtain s' where s': "server_close fifo_mpsc example_engine sorted_list_of_set
      (\<lambda>_. sorted_list_of_set) (sy_server sy) (sy_store sy) =
        Some ((sy_server sy)\<lparr>sv_connections := Map.empty, sv_listening := False\<rparr>, s')"
    "fires False 4 s'"
    using server_close_fires [where mord = "\<lambda>_. sorted_list_of_set", OF reachable_callbacks [OF sy(1)]
        example_engine_safe(2) hash_order_sorted hash_order_sorted conn(2), of fifo_mpsc]
      conn sy(5) by fastforce
  have "reachable fifo_mpsc fifo_mpsc fifo_mpsc example_engine ref_quic
      (sy\<lparr>sy_server := (sy_server sy)\<lparr>sv_connections := Map.empty, sv_listening := False\<rparr>,
         sy_store := s'\<rparr>)"
    by (rule reachable.step [OF sy(1) sys_step_close [OF hash_order_sorted s'(1)]])
  then show thesis by (rule that) (simp add: s'(2))
qed

text \<open>C5: In every reachable state of the running extension, whatever drivers, network, clients and
  PHP code do and however their steps interleave, no \<open>on_close\<close> slot has been called twice.\<close>

theorem on_close_called_at_most_once:
  assumes "reachable wch ech cch pe qc sy"
  shows "distinct (fired (sy_store sy))"
  using reachable_callbacks [OF assms] by (simp add: callbacks_ok_def slots_inv_def)

theorem on_close_called_at_most_once_witness:
  "\<exists>sy :: demo_system. fires False 4 (sy_store sy) \<and> distinct (fired (sy_store sy))"
  using on_close_called_at_most_once by (metis demo_closed)

text \<open>C12: In every reachable state with at most \<open>2 ^ 64\<close> accepted connections, the record and the
  driver with the same number belong together: what PHP writes on the connection goes into the
  channel that this driver, and no other, reads and wakes this driver; the handle copied into
  PHP objects names this connection and its callback map; and no other connection shares the
  callback map.\<close>

theorem connection_and_driver_belong_together:
  assumes "reachable wch ech cch pe qc sy" "sy_accepted sy \<le> 2 ^ 64"
    and "sy_drivers sy n = Some (d, q)" "sv_connections (sy_server sy) (drv_conn_id d) = Some st"
  shows "coh_write_tx (cs_open_handle st) = drv_stream_event_recv d \<and>
     coh_write_notify (cs_open_handle st) = drv_write_notify d \<and>
     coh_conn_id (cs_open_handle st) = drv_conn_id d \<and>
     coh_callbacks (cs_open_handle st) = cs_callbacks st \<and>
     (\<forall>m d' q'. sy_drivers sy m = Some (d', q') \<longrightarrow> m \<noteq> n \<longrightarrow>
        drv_stream_event_recv d' \<noteq> drv_stream_event_recv d \<and> drv_conn_id d' \<noteq> drv_conn_id d) \<and>
     (\<forall>j st'. sv_connections (sy_server sy) j = Some st' \<longrightarrow> j \<noteq> drv_conn_id d \<longrightarrow>
        cs_callbacks st' \<noteq> cs_callbacks st)"
proof -
  note ok = reachable_linked [OF assms(1), unfolded linked_def]
  have link: "links (sy_drivers sy) m =
      Some (drv_conn_id d', drv_stream_event_recv d', drv_write_notify d')"
    if "sy_drivers sy m = Some (d', q')" for m d' q'
    using that by (simp add: links_def)
  have id: "m < sy_accepted sy \<and> drv_conn_id d' = word_of_nat m"
    if "sy_drivers sy m = Some (d', q')" for m d' q'
    using ok link [OF that] unfolding drivers_ok_def by blast
  have wired: "coh_write_tx (cs_open_handle st) = drv_stream_event_recv d \<and>
      coh_write_notify (cs_open_handle st) = drv_write_notify d"
    using ok assms(2,4) link [OF assms(3)] id [OF assms(3)] unfolding wired_def by auto
  have others: "drv_stream_event_recv d' \<noteq> drv_stream_event_recv d \<and> drv_conn_id d' \<noteq> drv_conn_id d"
    if "sy_drivers sy m = Some (d', q')" "m \<noteq> n" for m d' q'
  proof
    show "drv_stream_event_recv d' \<noteq> drv_stream_event_recv d"
      using ok link [OF that(1)] link [OF assms(3)] that(2) unfolding drivers_ok_def by metis
    show "drv_conn_id d' \<noteq> drv_conn_id d"
      using id [OF that(1)] id [OF assms(3)] that(2) assms(2) word_of_nat_neq [of m n]
        word_of_nat_neq [of n m] by (cases "m < n") auto
  qed
  show ?thesis
    using ok assms(4) wired others unfolding records_ok_def by blast
qed

theorem connection_and_driver_belong_together_witness:
  "\<exists>(sy :: demo_system) d q st. sy_drivers sy 0 = Some (d, q) \<and>
     sv_connections (sy_server sy) 0 = Some st \<and>
     coh_write_tx (cs_open_handle st) = drv_stream_event_recv d"
proof (rule demo_accepted)
  fix sy :: demo_system and st d
  assume sy: "reachable fifo_mpsc fifo_mpsc fifo_mpsc example_engine ref_quic sy"
    "sy_accepted sy = 1" "sv_connections (sy_server sy) = [0 \<mapsto> st]"
    "sy_drivers sy 0 = Some (d, example_conn)" "drv_conn_id d = 0"
  then have "coh_write_tx (cs_open_handle st) = drv_stream_event_recv d"
    using connection_and_driver_belong_together [OF sy(1) _ sy(4), of st] by simp
  with sy show ?thesis
    by (intro exI [of _ sy] exI [of _ d] exI [of _ example_conn] exI [of _ st]) simp
qed

end
