(* ===== verification/Closed_Connections.thy ===== *)
theory Closed_Connections
  imports System Read_Path
begin

text \<open>
  What happens to the streams of a connection whose close has been handled: their callbacks are
  never called again, whatever late events of its driver are still queued, whatever PHP does
  with the stream objects it kept, and however many connections come and go.
\<close>

subsection \<open>The calls of one slot\<close>

fun called_slot :: "effect \<Rightarrow> addr option" where
  "called_slot (CalledData a cb d fin) = Some a"
| "called_slot (CalledClose a cb flag) = Some a"
| "called_slot _ = None"

definition calls :: "addr \<Rightarrow> 'wc store \<Rightarrow> effect list" where
  "calls a s = filter (\<lambda>e. called_slot e = Some a) (st_trace s)"

lemma calls_simps [simp]:
  "calls a (emit e s) = calls a s @ (if called_slot e = Some a then [e] else [])"
  "calls a (s\<lparr>st_slots := x\<rparr>) = calls a s"
  "calls a (s\<lparr>st_maps := y\<rparr>) = calls a s"
  "calls a (s\<lparr>st_chans := z\<rparr>) = calls a s"
  "calls a (register_stream m i s) = calls a s"
  "calls a (driver_does wch op s) = calls a s"
  by (simp_all add: calls_def)

interpretation calls_none: php_invariant wch callable "\<lambda>s. calls a s = es"
  for wch :: "('wc, stream_writer) mpsc" and callable a es
  by unfold_locales auto

lemma run_prog_calls: "run_prog wch pe p held s = Some s' \<Longrightarrow> calls a s' = calls a s"
  using calls_none.run_prog_inv [OF refl] by blast

lemma fire_on_close_calls:
  "fire_on_close wch pe flag b held s = Some s' \<Longrightarrow> b \<noteq> a \<Longrightarrow> calls a s' = calls a s"
  by (auto simp: step_simps dest: run_prog_calls
      split: option.splits if_splits)

lemma fire_all_calls:
  "fire_all wch pe flag bs held s = Some s' \<Longrightarrow> a \<notin> set bs \<Longrightarrow> calls a s' = calls a s"
  by (induction bs arbitrary: s) (auto split: option.splits dest: fire_on_close_calls [where a = a])

lemma call_stream_callback_calls:
  "call_stream_callback wch pe cb obj held s = Some s' \<Longrightarrow> calls a s' = calls a s"
  by (auto simp: step_simps dest: run_prog_calls
      split: option.splits if_splits)

lemma call_on_data_calls:
  "call_on_data wch pe slot data fin held s = Some s' \<Longrightarrow> slot \<noteq> a \<Longrightarrow> calls a s' = calls a s"
  by (auto simp: step_simps dest: run_prog_calls
      split: option.splits if_splits)

subsection \<open>Slots that belong to one callback map\<close>

definition has_slot :: "stream_slots \<Rightarrow> addr \<Rightarrow> bool" where
  "has_slot sl a \<longleftrightarrow> ss_on_data sl = a \<or> ss_on_close sl = a"

text \<open>
  \<open>confined a m s\<close>: slot \<open>a\<close> and map \<open>m\<close> are allocated, and the slot is in no other map.
  \<open>apart s\<close>: every slot in a map is confined to it.
\<close>

definition confined :: "addr \<Rightarrow> addr \<Rightarrow> 'wc store \<Rightarrow> bool" where
  "confined a m s \<longleftrightarrow> a < st_next s \<and> m < st_next s \<and>
     (\<forall>n j sl. st_maps s n j = Some sl \<longrightarrow> has_slot sl a \<longrightarrow> n = m)"

definition apart :: "'wc store \<Rightarrow> bool" where
  "apart s \<longleftrightarrow>
     (\<forall>n j sl a. st_maps s n j = Some sl \<longrightarrow> has_slot sl a \<longrightarrow> a < st_next s) \<and>
     (\<forall>n j sl n' j' sl' a. st_maps s n j = Some sl \<longrightarrow> st_maps s n' j' = Some sl' \<longrightarrow>
        has_slot sl a \<longrightarrow> has_slot sl' a \<longrightarrow> n = n')"

lemma apart_confined:
  "apart s \<Longrightarrow> st_maps s m i = Some sl \<Longrightarrow> has_slot sl a \<Longrightarrow> m < st_next s \<Longrightarrow> confined a m s"
  unfolding apart_def confined_def by blast

text \<open>Both survive when maps lose entries and addresses are allocated.\<close>

lemma shrunk: "st_maps s' n j = Some sl \<Longrightarrow> st_maps s' n \<subseteq>\<^sub>m st_maps s n \<Longrightarrow> st_maps s n j = Some sl"
  by (auto simp: map_le_def dom_def)

lemma confined_shrink:
  assumes "confined a m s" "st_next s \<le> st_next s'" "\<And>n. st_maps s' n \<subseteq>\<^sub>m st_maps s n"
  shows "confined a m s'"
  unfolding confined_def
proof (intro conjI allI impI)
  show "a < st_next s'" "m < st_next s'" using assms(1,2) by (auto simp: confined_def)
  show "n = m" if "st_maps s' n j = Some sl" "has_slot sl a" for n j sl
    using shrunk [OF that(1) assms(3)] that(2) assms(1) by (auto simp: confined_def)
qed

lemma apart_shrink:
  assumes "apart s" "st_next s \<le> st_next s'" "\<And>n. st_maps s' n \<subseteq>\<^sub>m st_maps s n"
  shows "apart s'"
  unfolding apart_def
proof (intro conjI allI impI)
  show "a < st_next s'" if "st_maps s' n j = Some sl" "has_slot sl a" for n j sl a
    using shrunk [OF that(1) assms(3)] that(2) assms(1,2) unfolding apart_def
    by (meson less_le_trans)
  show "n = n'" if "st_maps s' n j = Some sl" "st_maps s' n' j' = Some sl'" "has_slot sl a"
    "has_slot sl' a" for n j sl n' j' sl' a
    using shrunk [OF that(1) assms(3)] shrunk [OF that(2) assms(3)] that(3,4) assms(1)
    unfolding apart_def by blast
qed

lemma removed_le: "m' \<subseteq>\<^sub>m maps m \<Longrightarrow> (maps(m := m')) n \<subseteq>\<^sub>m maps n"
  by simp

lemma register_slots:
  assumes "st_maps (register_stream m i s) n j = Some sl" "has_slot sl x"
  shows "n = m \<and> st_next s \<le> x \<and> x < st_next (register_stream m i s) \<or> st_maps s n j = Some sl"
  using assms by (auto simp: has_slot_def split: if_splits)

interpretation confined: connection_invariant wch callable "confined a m"
  for wch :: "('wc, stream_writer) mpsc" and callable a m
proof unfold_locales
  fix s :: "'wc store" and n i
  assume c: "confined a m s"
  have "k = m" if "st_maps (register_stream n i s) k j = Some sl" "has_slot sl a" for k j sl
    using register_slots [OF that] that(2) c unfolding confined_def by (meson not_le)
  moreover have "a < st_next (register_stream n i s)" "m < st_next (register_stream n i s)"
    using c by (simp_all add: confined_def)
  ultimately show "confined a m (register_stream n i s)"
    unfolding confined_def by blast
next
  fix s s' :: "'wc store" and cid peer st drv
  assume "confined a m s" "build wch cid peer s = ((st, drv), s')"
  then show "confined a m (emit (Started drv) s')"
    using build_simps [of wch cid peer s st drv s'] by (elim confined_shrink) auto
qed (erule confined_shrink; simp add: removed_le)+

interpretation apart: connection_invariant wch callable apart
  for wch :: "('wc, stream_writer) mpsc" and callable
proof unfold_locales
  fix s :: "'wc store" and m i
  assume a: "apart s"
  have old: "x < st_next s" if "st_maps s n j = Some sl" "has_slot sl x" for n j sl x
    using a that unfolding apart_def by blast
  have "x < st_next (register_stream m i s)"
    if "st_maps (register_stream m i s) n j = Some sl" "has_slot sl x" for n j sl x
    using register_slots [OF that] old [of n j sl x] that(2) by auto
  moreover have "n = n'"
    if "st_maps (register_stream m i s) n j = Some sl" "st_maps (register_stream m i s) n' j' = Some sl'"
      "has_slot sl x" "has_slot sl' x" for n j sl n' j' sl' x
    using register_slots [OF that(1,3)] register_slots [OF that(2,4)] that(3,4)
      old [of n j sl x] old [of n' j' sl' x] a unfolding apart_def by (meson not_le)
  ultimately show "apart (register_stream m i s)"
    unfolding apart_def by blast
next
  fix s s' :: "'wc store" and cid peer st drv
  assume "apart s" "build wch cid peer s = ((st, drv), s')"
  then show "apart (emit (Started drv) s')"
    using build_simps [of wch cid peer s st drv s'] by (elim apart_shrink) auto
qed (erule apart_shrink; simp add: removed_le)+

subsection \<open>The server's steps\<close>

lemma dispatch_calls:
  assumes "dispatch_driver_event wch pe cid ev sv s = Some s'" "confined a m s"
    and "\<And>st. sv_connections sv cid = Some st \<Longrightarrow> cs_callbacks st \<noteq> m"
  shows "calls a s' = calls a s"
proof (cases "sv_connections sv cid")
  case None
  with assms(1) show ?thesis by (simp add: dispatch_driver_event_def)
next
  case (Some st)
  let ?m = "cs_callbacks st"
  have other: "\<not> has_slot sl a" if "confined a m s1" "st_maps s1 ?m j = Some sl" for s1 j sl
    using that assms(3) [OF Some] unfolding confined_def by blast
  show ?thesis
  proof (cases ev)
    case (Data j d fin)
    obtain s1 where s1: "(case st_maps s ?m j of
        Some sl \<Rightarrow> call_on_data wch pe (ss_on_data sl) d fin {} s | None \<Rightarrow> Some s) = Some s1"
      "(case (if fin then st_maps s1 ?m j else None) of
         None \<Rightarrow> Some s1
       | Some sl \<Rightarrow> fire_on_close wch pe True (ss_on_close sl) {}
           (s1\<lparr>st_maps := (st_maps s1)(?m := (st_maps s1 ?m)(j := None))\<rparr>)) = Some s'"
      using assms(1) Some Data
      by (auto simp: dispatch_driver_event_def dispatch_data_eq split: option.splits)
    have "calls a s1 = calls a s"
      using s1(1) other [OF assms(2)]
      by (auto simp: has_slot_def dest!: call_on_data_calls [where a = a] split: option.splits)
    moreover have "confined a m s1"
      using s1(1) assms(2) by (auto dest: confined.call_on_data_inv [OF refl] split: option.splits)
    moreover have "calls a s' = calls a s1"
      using s1(2) other [OF \<open>confined a m s1\<close>]
      by (auto simp: has_slot_def dest!: fire_on_close_calls [where a = a]
          split: option.splits if_splits)
    ultimately show ?thesis by simp
  qed (use assms(1) Some in \<open>auto simp: dispatch_driver_event_def callbacks.dispatch_new_stream_eq
         dest: call_stream_callback_calls\<close>)
qed

lemma drain_calls:
  assumes "drain_callbacks wch pe ord flag n s = Some s'" "confined a m s" "n \<noteq> m"
    and "hash_order ord" "maps_finite s"
  shows "calls a s' = calls a s"
proof -
  have "set (close_slots ord (st_maps s n)) = ss_on_close ` ran (st_maps s n)"
    using assms(4,5) by (intro set_close_slots) (auto simp: maps_finite_def)
  then have "a \<notin> set (close_slots ord (st_maps s n))"
    using assms(2,3) by (auto simp: ran_def confined_def has_slot_def)
  then show ?thesis
    using assms(1) fire_all_calls by (fastforce simp: drain_callbacks_def)
qed

lemma close_connections_calls:
  assumes "close_connections wch pe mord states s = Some s'" "confined a m s"
    and "\<And>st. st \<in> set states \<Longrightarrow> cs_callbacks st \<noteq> m" "\<And>n. hash_order (mord n)" "maps_finite s"
  shows "calls a s' = calls a s"
  using assms(1-3,5)
proof (induction states arbitrary: s)
  case Nil
  then show ?case by simp
next
  case (Cons st states)
  then obtain s1 where s1:
    "drain_callbacks wch pe (mord (cs_callbacks st)) False (cs_callbacks st) s = Some s1"
    "close_connections wch pe mord states s1 = Some s'"
    by (auto split: option.splits)
  have "calls a s1 = calls a s"
    using drain_calls [OF s1(1) Cons.prems(2) _ assms(4) Cons.prems(4)] Cons.prems(3) by simp
  moreover have "calls a s' = calls a s1"
    using Cons.IH [OF s1(2) confined.drain_callbacks_inv [OF refl s1(1) Cons.prems(2)] _
        finite_maps.drain_callbacks_inv [OF refl s1(1) Cons.prems(4)]] Cons.prems(3) by simp
  ultimately show ?case by simp
qed

subsection \<open>Silence\<close>

text \<open>
  \<open>silent a m es sy\<close>: map \<open>m\<close>, the only one slot \<open>a\<close> may be in, is of no connection the server
  knows, and the slot was called with \<open>es\<close>.
\<close>

definition silent :: "addr \<Rightarrow> addr \<Rightarrow> effect list \<Rightarrow> ('wc, 'ec, 'cc, 'q) system \<Rightarrow> bool" where
  "silent a m es sy \<longleftrightarrow> confined a m (sy_store sy) \<and> callbacks_ok (sy_store sy) \<and>
     (\<forall>st \<in> ran (sv_connections (sy_server sy)). cs_callbacks st \<noteq> m) \<and>
     calls a (sy_store sy) = es"

lemma ran_le: "m' \<subseteq>\<^sub>m m \<Longrightarrow> ran m' \<subseteq> ran m"
  by (force simp: ran_def map_le_def dom_def)

interpretation silence: inductive_invariant "silent a m es" "sys_step wch ech cch pe qc"
    "silent a m es"
  for wch :: "('wc, stream_writer) mpsc" and ech :: "('ec, u64 \<times> driver_event) mpsc"
    and cch :: "('cc, u64 \<times> bool) mpsc" and pe and qc :: "'q quic" and a m es
proof unfold_locales
  fix sy sy' :: "('wc, 'ec, 'cc, 'q) system"
  let ?s = "sy_store sy" and ?conns = "sv_connections (sy_server sy)"
  assume ok: "silent a m es sy" and step: "sys_step wch ech cch pe qc sy sy'"
  then have c: "confined a m ?s" and k: "callbacks_ok ?s" and f: "maps_finite ?s"
    and other: "\<And>i st. ?conns i = Some st \<Longrightarrow> cs_callbacks st \<noteq> m"
    by (auto simp: silent_def callbacks_ok_def ran_def)
  have "confined a m (sy_store sy')"
    by (rule confined.sys_step_inv [OF refl _ c step]) (simp add: confined_def)
  note kept = this once.inv_step [OF k step]
  have keeps: "silent a m es sy'"
    if "calls a (sy_store sy') = calls a ?s" "sv_connections (sy_server sy') \<subseteq>\<^sub>m ?conns"
    using that(1) ran_le [OF that(2)] kept ok by (auto simp: silent_def)
  from step show "silent a m es sy'"
  proof (cases rule: sys_step_cases)
    case (accept peer sv drv s q)
    obtain st s1 where b: "build wch (sv_id_counter (sy_server sy)) peer ?s = ((st, drv), s1)"
      "s = emit (Started drv) s1"
      "sv_connections sv = ?conns(sv_id_counter (sy_server sy) \<mapsto> st)"
      using accept(3) by (auto simp: accept_connection_def Let_def split: prod.splits)
    have "cs_callbacks st \<noteq> m" "calls a s = calls a ?s"
      using build_simps [OF b(1)] c b(2) by (auto simp: confined_def calls_def)
    then show ?thesis
      using ok kept accept(1) b(3) by (auto simp: silent_def ran_def split: if_splits)
  next
    case (dispatch cid ev c' s)
    then show ?thesis
      using dispatch_calls [OF dispatch(3) c other] by (intro keeps) auto
  next
    case (closed cid flag c' ord sv s)
    then show ?thesis
      using conn_closed_frame [OF closed(4)] drain_calls [OF _ c other closed(3) f]
      by (intro keeps) (auto simp: conn_closed_def split: option.splits)
  next
    case (php p s)
    then show ?thesis using run_prog_calls [OF php(2)] by (intro keeps) auto
  next
    case (close mord cord sv s)
    then have "calls a s = calls a ?s"
      using close_connections_calls [where mord = mord, OF _ c _ close(2) f] other
      by (force simp: server_close_def map_filter_def split: option.splits)
    with close show ?thesis
      using server_close_frame [OF close(3)] by (intro keeps) auto
  qed (rule keeps; simp add: calls_def)+
qed

interpretation apart_reachable: inductive_invariant "initial ech cch"
    "sys_step wch ech cch pe qc" "\<lambda>sy. apart (sy_store sy)"
  for wch :: "('wc, stream_writer) mpsc" and ech :: "('ec, u64 \<times> driver_event) mpsc"
    and cch :: "('cc, u64 \<times> bool) mpsc" and pe and qc :: "'q quic"
proof unfold_locales
  fix sy sy' :: "('wc, 'ec, 'cc, 'q) system"
  assume "apart (sy_store sy)" "sys_step wch ech cch pe qc sy sy'"
  then show "apart (sy_store sy')"
    by (rule apart.sys_step_inv [OF refl, rotated]) (simp add: apart_def)
qed (auto simp: initial_def init_store_def apart_def)

text \<open>C6: A closed connection stays silent. Once the server has handled the close of a connection, no
  callback of any stream it had is ever called again, neither \<open>on_data\<close> nor \<open>on_close\<close>, in any
  continuation of the run: events of its driver that are still queued, programs that go on using
  the stream objects, new connections, further closes and the close of the server included.\<close>

theorem closed_connection_is_silent:
  assumes "reachable wch ech cch pe qc sy" "hash_order ord"
    and "sv_connections (sy_server sy) cid = Some st"
    and "st_maps (sy_store sy) (cs_callbacks st) i = Some sl"
    and "conn_closed wch pe ord cid flag ((sy_server sy)\<lparr>sv_closes := c\<rparr>) (sy_store sy) = Some (sv, s)"
    and "(sys_step wch ech cch pe qc)\<^sup>*\<^sup>* (sy\<lparr>sy_server := sv, sy_store := s\<rparr>) sy'"
    and "a = ss_on_data sl \<or> a = ss_on_close sl"
  shows "calls a (sy_store sy') = calls a s"
proof -
  let ?m = "cs_callbacks st"
  have records: "records_ok (sy_accepted sy) (st_next (sy_store sy)) (sv_connections (sy_server sy))"
    using reachable_linked [OF assms(1)] by (simp add: linked_def)
  have "apart (sy_store sy)"
    using assms(1) unfolding reachable_iff by (blast dest: apart_reachable.inv_rtranclp)
  then have "confined a ?m (sy_store sy)"
    using assms(3,4,7) records by (intro apart_confined) (auto simp: has_slot_def records_ok_def)
  then have conf: "confined a ?m s"
    using confined.conn_closed_inv [OF refl assms(2,5)] by simp
  have ok: "callbacks_ok s"
    using callbacks.conn_closed_inv [OF refl assms(2,5) reachable_callbacks [OF assms(1)]] .
  have "sv_connections sv = (sv_connections (sy_server sy))(cid := None)"
    using assms(3,5) by (auto simp: conn_closed_def split: option.splits)
  then have "\<forall>st' \<in> ran (sv_connections sv). cs_callbacks st' \<noteq> ?m"
    using records assms(3) unfolding records_ok_def by (auto simp: ran_def split: if_splits)
  with conf ok have "silent a ?m (calls a s) (sy\<lparr>sy_server := sv, sy_store := s\<rparr>)"
    by (simp add: silent_def)
  then have "silent a ?m (calls a s) sy'"
    by (rule silence.inv_rtranclp [OF _ assms(6)])
  then show ?thesis by (simp add: silent_def)
qed

theorem closed_connection_is_silent_witness:
  "\<exists>(sy :: demo_system) sv s s2.
     conn_closed fifo_mpsc example_engine sorted_list_of_set 0 True (sy_server sy) (sy_store sy) =
       Some (sv, s) \<and> fires True 4 s \<and>
     run_prog fifo_mpsc example_engine demo_prog {} s = Some s2 \<and>
     calls 4 s2 = calls 4 s"
proof (rule demo_stream)
  fix sy :: demo_system and st
  assume sy: "reachable fifo_mpsc fifo_mpsc fifo_mpsc example_engine ref_quic sy"
    "sv_connections (sy_server sy) = [0 \<mapsto> st]" "cs_callbacks st = 2"
    "st_maps (sy_store sy) 2 1 = Some \<lparr>ss_on_data = 3, ss_on_close = 4\<rparr>"
    "installed (pe_callable (example_engine :: stream_writer fifo php_engine)) 4 (sy_store sy)"
  have conn: "sv_connections (sy_server sy) 0 = Some st"
    "st_maps (sy_store sy) (cs_callbacks st) 1 = Some \<lparr>ss_on_data = 3, ss_on_close = 4\<rparr>"
    using sy(2-4) by simp_all
  obtain s where drain: "drain_callbacks fifo_mpsc example_engine sorted_list_of_set True 2
      (sy_store sy) = Some s"
    using drain_callbacks_returns [OF example_engine_safe(2)] by blast
  define sv where "sv = (sy_server sy)\<lparr>sv_connections := Map.empty\<rparr>"
  have run: "conn_closed fifo_mpsc example_engine sorted_list_of_set 0 True
      ((sy_server sy)\<lparr>sv_closes := sv_closes (sy_server sy)\<rparr>) (sy_store sy) = Some (sv, s)"
    using drain conn(1) sy(2,3) by (simp add: conn_closed_def sv_def)
  have fires: "fires True 4 s"
    using drain_callbacks_fires [OF drain hash_order_sorted _ sy(4), simplified] sy(5)
      reachable_callbacks [OF sy(1)] by (simp add: callbacks_ok_def)
  obtain s2 where s2: "run_prog fifo_mpsc example_engine demo_prog {} s = Some s2"
    using run_prog_returns [OF run_prog_no_locks] by blast
  let ?sy = "sy\<lparr>sy_server := sv, sy_store := s\<rparr>"
  have "sys_step fifo_mpsc fifo_mpsc fifo_mpsc example_engine ref_quic ?sy (?sy\<lparr>sy_store := s2\<rparr>)"
    using s2 by (intro sys_step_php) simp
  then have "calls 4 (sy_store (?sy\<lparr>sy_store := s2\<rparr>)) = calls 4 s"
    by (intro closed_connection_is_silent [OF sy(1) hash_order_sorted conn run r_into_rtranclp])
      simp_all
  then show ?thesis
    using run fires s2 by (intro exI [of _ sy] exI [of _ sv] exI [of _ s] exI [of _ s2]) simp
qed

end
