(* ===== verification/Lost_Closes.thy ===== *)
theory Lost_Closes
  imports System
begin

text \<open>
  The way of a connection's end from its driver to the server: the driver reports it once,
  through the close channel, and the server drops the record when it takes the message. The
  channel is bounded, so a report can be lost; this theory shows what happens then.
\<close>

subsection \<open>What a step does to the close channel\<close>

text \<open>The ids of the running drivers.\<close>

definition driver_ids :: "(nat \<rightharpoonup> driver \<times> 'q) \<Rightarrow> u64 set" where
  "driver_ids drs = {drv_conn_id d |n d q. drs n = Some (d, q)}"

lemma driver_ids_links: "driver_ids drs = {i. \<exists>n w t. links drs n = Some (i, w, t)}"
  by (auto simp: driver_ids_def links_def)

lemma driver_ids_mono: "links drs' \<subseteq>\<^sub>m links drs \<Longrightarrow> driver_ids drs' \<subseteq> driver_ids drs"
  unfolding driver_ids_links by (blast dest: submapD)

lemma driver_ids_insert: "driver_ids (drs(n \<mapsto> (d, q))) \<subseteq> insert (drv_conn_id d) (driver_ids drs)"
  by (auto simp: driver_ids_def split: if_splits)

lemma sys_step_traffic:
  assumes "mpsc_fifo cch items room live" "live (sv_closes (sy_server sy))"
    and "sys_step wch ech cch pe qc sy sy'"
  obtains
    (accepted) st where "sv_listening (sy_server sy)" "sy_accepted sy' = Suc (sy_accepted sy)"
      "sv_listening (sy_server sy')" "sv_closes (sy_server sy') = sv_closes (sy_server sy)"
      "driver_ids (sy_drivers sy') \<subseteq> insert (sv_id_counter (sy_server sy)) (driver_ids (sy_drivers sy))"
      "sv_connections (sy_server sy') =
         (sv_connections (sy_server sy))(sv_id_counter (sy_server sy) \<mapsto> st)"
  | (ended) n d q f where "sy_drivers sy n = Some (d, q)" "sy_drivers sy' = (sy_drivers sy)(n := None)"
      "live (sv_closes (sy_server sy'))" "sy_accepted sy' = sy_accepted sy"
      "set (items (sv_closes (sy_server sy'))) \<subseteq>
         insert (drv_conn_id d, f) (set (items (sv_closes (sy_server sy))))"
      "sv_connections (sy_server sy') = sv_connections (sy_server sy)"
      "sv_listening (sy_server sy') = sv_listening (sy_server sy)"
  | (taken) i f where "items (sv_closes (sy_server sy)) = (i, f) # items (sv_closes (sy_server sy'))"
      "live (sv_closes (sy_server sy'))" "sy_accepted sy' = sy_accepted sy"
      "sy_drivers sy' = sy_drivers sy"
      "sv_connections (sy_server sy') = (sv_connections (sy_server sy))(i := None)"
      "sv_listening (sy_server sy') = sv_listening (sy_server sy)"
  | (stopped) "\<not> sv_listening (sy_server sy')" "sv_closes (sy_server sy') = sv_closes (sy_server sy)"
      "sy_drivers sy' = sy_drivers sy" "sy_accepted sy' = sy_accepted sy"
  | (quiet) "sv_closes (sy_server sy') = sv_closes (sy_server sy)"
      "driver_ids (sy_drivers sy') \<subseteq> driver_ids (sy_drivers sy)" "sy_accepted sy' = sy_accepted sy"
      "sv_connections (sy_server sy') = sv_connections (sy_server sy)"
      "sv_listening (sy_server sy') = sv_listening (sy_server sy)"
  using assms(3)
proof (cases rule: sys_step_cases)
  case (accept peer sv drv s q)
  obtain st s1 where b: "build wch (sv_id_counter (sy_server sy)) peer (sy_store sy) = ((st, drv), s1)"
    "sv = (sy_server sy)\<lparr>sv_id_counter := sv_id_counter (sy_server sy) + 1, sv_connections :=
       (sv_connections (sy_server sy))(sv_id_counter (sy_server sy) \<mapsto> st)\<rparr>"
    using accept(3) by (auto simp: accept_connection_def Let_def split: prod.splits)
  show thesis
    using accept(1,2) b(2) build_simps(4) [OF b(1)]
      driver_ids_insert [of "sy_drivers sy" "sy_accepted sy" drv q]
    by (intro accepted [of st]) simp_all
next
  case (driver_ends n d q)
  have "live (sv_closes (sy_server sy')) \<and>
      set (items (sv_closes (sy_server sy'))) \<subseteq>
        insert (drv_conn_id d, peer_error qc q) (set (items (sv_closes (sy_server sy))))"
    by (rule mpsc_fifo.try_send_cases [OF assms(1), of "sv_closes (sy_server sy)"
          "(drv_conn_id d, peer_error qc q)"])
      (use assms(2) driver_ends(1) in \<open>auto simp: on_conn_close_def\<close>)
  then show thesis
    using driver_ends by (intro ended [of n d q "peer_error qc q"]) auto
next
  case (closed cid flag c ord sv s)
  then have "items (sv_closes (sy_server sy)) = (cid, flag) # items c \<and> live c"
    by (cases rule: mpsc_fifo.try_recv_cases [OF assms(1,2)]) auto
  moreover have "sv_connections sv = (sv_connections (sy_server sy))(cid := None) \<and> sv_closes sv = c \<and>
      sv_listening sv = sv_listening (sy_server sy)"
    using closed(4) by (auto simp: conn_closed_def fun_upd_idem split: option.splits)
  ultimately show thesis
    using closed(1) by (intro taken [of cid flag]) auto
next
  case (close mord cord sv s)
  then show thesis
    by (intro stopped) (auto simp: server_close_def split: option.splits)
next
  case (network n d q q')
  then show thesis
    using driver_ids_mono [OF links_step(2) [where drs = "sy_drivers sy", OF network(2)]] by (intro quiet) simp_all
next
  case (established n d q)
  then show thesis
    using driver_ids_mono [OF links_step(3) [where drs = "sy_drivers sy", OF established(2)]] by (intro quiet) simp_all
next
  case (reads n d q d' c q')
  then show thesis
    using driver_ids_mono [OF links_step(4) [where drs = "sy_drivers sy", OF reads(2,4)]] by (intro quiet) simp_all
next
  case (writes n d q ord d' c q')
  then show thesis
    using driver_ids_mono [OF links_step(5) [where drs = "sy_drivers sy", OF writes(2,5)]] by (intro quiet) simp_all
qed (rule quiet; simp)+

subsection \<open>Reports in the channel\<close>

text \<open>
  \<open>reported\<close>: as long as no id was given out twice, a report in the channel is of a driver that
  has ended. \<open>leaked cid st\<close>: no report of connection \<open>cid\<close> is in the channel, no driver is left
  to send one, and the record \<open>st\<close> is still there unless the server was closed.
\<close>

definition reported ::
  "('cc \<Rightarrow> (u64 \<times> bool) list) \<Rightarrow> ('cc \<Rightarrow> bool) \<Rightarrow> ('wc, 'ec, 'cc, 'q) system \<Rightarrow> bool" where
  "reported items live sy \<longleftrightarrow> live (sv_closes (sy_server sy)) \<and>
     (sy_accepted sy \<le> 2 ^ 64 \<longrightarrow>
        (\<forall>i \<in> fst ` set (items (sv_closes (sy_server sy))).
           i \<notin> driver_ids (sy_drivers sy) \<and> unat i < sy_accepted sy))"

definition leaked ::
  "('cc \<Rightarrow> (u64 \<times> bool) list) \<Rightarrow> ('cc \<Rightarrow> bool) \<Rightarrow> u64 \<Rightarrow> conn_state \<Rightarrow>
   ('wc, 'ec, 'cc, 'q) system \<Rightarrow> bool" where
  "leaked items live cid st sy \<longleftrightarrow> live (sv_closes (sy_server sy)) \<and>
     (sy_accepted sy \<le> 2 ^ 64 \<longrightarrow>
        cid \<notin> fst ` set (items (sv_closes (sy_server sy))) \<and> cid \<notin> driver_ids (sy_drivers sy) \<and>
        unat cid < sy_accepted sy \<and>
        (sv_connections (sy_server sy) cid = Some st \<or> \<not> sv_listening (sy_server sy)))"

lemma linked_counter:
  assumes "linked sy" "Suc (sy_accepted sy) \<le> 2 ^ 64" "unat i < sy_accepted sy"
  shows "i \<noteq> sv_id_counter (sy_server sy)"
proof -
  have "unat (sv_id_counter (sy_server sy)) = sy_accepted sy"
    using assms(1,2) by (simp add: linked_def unat_of_nat)
  with assms(3) show ?thesis by auto
qed

lemma linked_driver_ids:
  assumes "linked sy" "sy_drivers sy n = Some (d, q)" "sy_accepted sy \<le> 2 ^ 64"
  shows "unat (drv_conn_id d) < sy_accepted sy"
    "drv_conn_id d \<notin> driver_ids ((sy_drivers sy)(n := None))"
proof -
  have id: "m < sy_accepted sy \<and> drv_conn_id e = word_of_nat m" if "sy_drivers sy m = Some (e, r)" for m e r
  proof -
    have "links (sy_drivers sy) m =
        Some (drv_conn_id e, drv_stream_event_recv e, drv_write_notify e)"
      using that by (simp add: links_def)
    with assms(1) show ?thesis unfolding linked_def drivers_ok_def by blast
  qed
  show "unat (drv_conn_id d) < sy_accepted sy"
    using id [OF assms(2)] assms(3) by (simp add: unat_of_nat)
  show "drv_conn_id d \<notin> driver_ids ((sy_drivers sy)(n := None))"
  proof
    assume "drv_conn_id d \<in> driver_ids ((sy_drivers sy)(n := None))"
    then obtain m e r where m: "sy_drivers sy m = Some (e, r)" "m \<noteq> n" "drv_conn_id e = drv_conn_id d"
      by (auto simp: driver_ids_def split: if_splits)
    show False
      using id [OF m(1)] id [OF assms(2)] m(2,3) assms(3) word_of_nat_neq [of m n]
        word_of_nat_neq [of n m] by (cases "m < n") auto
  qed
qed

lemma reported_step:
  assumes "mpsc_fifo cch items room live" "linked sy" "reported items live sy"
    and "sys_step wch ech cch pe qc sy sy'"
  shows "reported items live sy'"
proof -
  have "live (sv_closes (sy_server sy))" using assms(3) by (simp add: reported_def)
  from assms(1) this assms(4) show ?thesis
  proof (cases rule: sys_step_traffic)
    case (accepted st)
    have "i \<noteq> sv_id_counter (sy_server sy)"
      if "Suc (sy_accepted sy) \<le> 2 ^ 64" "i \<in> fst ` set (items (sv_closes (sy_server sy)))" for i
      using that assms(3) linked_counter [OF assms(2) that(1)] by (auto simp: reported_def)
    then show ?thesis using accepted assms(3) by (auto simp: reported_def)
  next
    case (ended n d q f)
    have "driver_ids (sy_drivers sy') \<subseteq> driver_ids (sy_drivers sy)"
      unfolding ended(2) by (auto simp: driver_ids_def split: if_splits)
    then show ?thesis
      using ended assms(3) linked_driver_ids [OF assms(2) ended(1)]
      unfolding reported_def by fastforce
  qed (use assms(3) in \<open>auto simp: reported_def\<close>)
qed

lemma leaked_step:
  assumes "mpsc_fifo cch items room live" "linked sy" "leaked items live cid st sy"
    and "sys_step wch ech cch pe qc sy sy'"
  shows "leaked items live cid st sy'"
proof -
  have "live (sv_closes (sy_server sy))" using assms(3) by (simp add: leaked_def)
  from assms(1) this assms(4) show ?thesis
  proof (cases rule: sys_step_traffic)
    case (accepted st)
    have "cid \<noteq> sv_id_counter (sy_server sy)" if "Suc (sy_accepted sy) \<le> 2 ^ 64"
      using that assms(3) linked_counter [OF assms(2) that] by (auto simp: leaked_def)
    then show ?thesis using accepted assms(3) by (auto simp: leaked_def)
  next
    case (ended n d q f)
    have "driver_ids (sy_drivers sy') \<subseteq> driver_ids (sy_drivers sy)"
      "drv_conn_id d \<in> driver_ids (sy_drivers sy)"
      using ended(1) unfolding ended(2) by (auto simp: driver_ids_def split: if_splits)
    then show ?thesis
      using ended assms(3) unfolding leaked_def by fastforce
  qed (use assms(3) in \<open>auto simp: leaked_def\<close>)
qed

lemma reachable_reported:
  assumes "mpsc_fifo cch items room live" "reachable wch ech cch pe qc sy"
  shows "reported items live sy"
  using assms(2)
proof (induction rule: reachable.induct)
  case (start sy)
  have "0 < CONN_CLOSE_CHANNEL_CAPACITY" by (simp add: CONN_CLOSE_CHANNEL_CAPACITY_def)
  then show ?case
    using start mpsc_fifo.channel [OF assms(1)] by (auto simp: initial_def reported_def)
next
  case (step sy sy')
  then show ?case by (blast intro: reported_step [OF assms(1)] reachable_linked)
qed

lemma leaked_forever:
  assumes "mpsc_fifo cch items room live" "(sys_step wch ech cch pe qc)\<^sup>*\<^sup>* sy sy'"
    and "linked sy" "leaked items live cid st sy"
  shows "leaked items live cid st sy'"
proof -
  have "linked sy' \<and> leaked items live cid st sy'"
    using assms(2-4)
    by (induction rule: rtranclp_induct) (blast intro: links.inv_step leaked_step [OF assms(1)])+
  then show ?thesis ..
qed

subsection \<open>Properties\<close>

text \<open>The step by which a driver ends.\<close>

definition end_driver ::
  "('wc, stream_writer) mpsc \<Rightarrow> ('cc, u64 \<times> bool) mpsc \<Rightarrow> 'q quic \<Rightarrow> nat \<Rightarrow>
   ('wc, 'ec, 'cc, 'q) system \<Rightarrow> ('wc, 'ec, 'cc, 'q) system" where
  "end_driver wch cch qc n sy =
     (case sy_drivers sy n of
        None \<Rightarrow> sy
      | Some (d, q) \<Rightarrow>
          sy\<lparr>sy_server := (sy_server sy)\<lparr>sv_closes :=
               on_conn_close cch qc d q (sv_closes (sy_server sy))\<rparr>,
             sy_store := (sy_store sy)\<lparr>st_chans := (st_chans (sy_store sy))
               (drv_stream_event_recv d :=
                  rx_drop wch (st_chans (sy_store sy) (drv_stream_event_recv d)))\<rparr>,
             sy_drivers := (sy_drivers sy)(n := None)\<rparr>)"

lemma end_driver_step:
  "sy_drivers sy n = Some (d, q) \<Longrightarrow> sys_step wch ech cch pe qc sy (end_driver wch cch qc n sy)"
  by (simp add: end_driver_def sys_step_driver_ends)

text \<open>C31: A close can be lost, and then its connection leaks. When a driver ends while the close
  channel is full, its report is dropped, and as long as the server is not closed and fewer than
  \<open>2 ^ 64\<close> connections are accepted the record of the connection stays in the server in every
  continuation of the run, so its \<open>on_close\<close> callbacks wait for the close of the server. With a
  free place the report is queued behind the others, with the connection's id and with whether
  the peer closed.\<close>

theorem lost_close_leaks_connection:
  assumes "mpsc_fifo cch items room live" "reachable wch ech cch pe qc sy"
    and "sy_drivers sy n = Some (d, q)"
    and "sv_connections (sy_server sy) (drv_conn_id d) = Some st"
    and "(sys_step wch ech cch pe qc)\<^sup>*\<^sup>* (end_driver wch cch qc n sy) sy'" "sy_accepted sy' \<le> 2 ^ 64"
  shows "if 0 < room (sv_closes (sy_server sy))
     then items (sv_closes (sy_server (end_driver wch cch qc n sy))) =
       items (sv_closes (sy_server sy)) @ [(drv_conn_id d, peer_error qc q)]
     else sv_connections (sy_server sy') (drv_conn_id d) = Some st \<or> \<not> sv_listening (sy_server sy')"
proof -
  let ?c = "sv_closes (sy_server sy)" and ?sy1 = "end_driver wch cch qc n sy"
  note rep = reachable_reported [OF assms(1,2), unfolded reported_def]
  note linked = reachable_linked [OF assms(2)]
  have linked1: "linked ?sy1"
    using links.inv_step [OF linked end_driver_step [OF assms(3)]] .
  have sent: "on_conn_close cch qc d q ?c = ?c" if "room ?c = 0"
    using that rep mpsc_fifo.try_send_full [OF assms(1)] by (simp add: on_conn_close_def)
  show ?thesis
  proof (cases "0 < room ?c")
    case True
    then obtain c' where "try_send cch (drv_conn_id d, peer_error qc q) ?c = Inr c'"
      "items c' = items ?c @ [(drv_conn_id d, peer_error qc q)]"
      using rep mpsc_fifo.try_send_ok [OF assms(1)] by blast
    with True assms(3) show ?thesis by (simp add: end_driver_def on_conn_close_def)
  next
    case False
    have "leaked items live (drv_conn_id d) st ?sy1"
    proof -
      have "drv_conn_id d \<in> driver_ids (sy_drivers sy)"
        using assms(3) by (auto simp: driver_ids_def)
      then show ?thesis
        using False assms(3,4) sent rep linked_driver_ids [OF linked assms(3)]
        by (auto simp: leaked_def end_driver_def)
    qed
    from leaked_forever [OF assms(1,5) linked1 this] False assms(6) show ?thesis
      by (simp add: leaked_def)
  qed
qed

text \<open>A run that fills the close channel: so many connections are accepted and end in turn.\<close>

lemma demo_accept_next:
  fixes sy :: demo_system
  assumes "reachable fifo_mpsc fifo_mpsc fifo_mpsc example_engine ref_quic sy"
    and "sv_listening (sy_server sy)"
  obtains sy1 :: demo_system and d st where
    "reachable fifo_mpsc fifo_mpsc fifo_mpsc example_engine ref_quic sy1"
    "sv_listening (sy_server sy1)" "sv_closes (sy_server sy1) = sv_closes (sy_server sy)"
    "sy_drivers sy1 = (sy_drivers sy)(sy_accepted sy \<mapsto> (d, example_conn))"
    "sy_accepted sy1 = Suc (sy_accepted sy)" "sv_connections (sy_server sy1) (drv_conn_id d) = Some st"
proof -
  obtain st d s where b: "build fifo_mpsc (sv_id_counter (sy_server sy)) [] (sy_store sy) = ((st, d), s)"
    by (metis prod.exhaust)
  then have acc: "accept_connection fifo_mpsc [] (sy_server sy) (sy_store sy) =
      (((sy_server sy)\<lparr>sv_id_counter := sv_id_counter (sy_server sy) + 1, sv_connections :=
         (sv_connections (sy_server sy))(sv_id_counter (sy_server sy) \<mapsto> st)\<rparr>, d), emit (Started d) s)"
    by (simp add: accept_connection_def Let_def)
  show thesis
    by (rule that [where st = st, OF reachable.step [OF assms(1) sys_step_accept [OF assms(2) acc]]])
      (use assms(2) build_simps(4) [OF b] in auto)
qed

lemma demo_full:
  assumes "k \<le> CONN_CLOSE_CHANNEL_CAPACITY"
  shows "\<exists>sy :: demo_system. reachable fifo_mpsc fifo_mpsc fifo_mpsc example_engine ref_quic sy \<and>
     sv_listening (sy_server sy) \<and> sy_accepted sy = k \<and> fifo_live (sv_closes (sy_server sy)) \<and>
     fifo_room (sv_closes (sy_server sy)) + k = CONN_CLOSE_CHANNEL_CAPACITY"
  using assms
proof (induction k)
  case 0
  have "initial fifo_mpsc fifo_mpsc demo_initial"
    by (auto simp: initial_def demo_initial_def)
  then show ?case
    by (intro exI [of _ demo_initial])
      (auto simp: demo_initial_def fifo_mpsc_def intro: reachable.start)
next
  case (Suc k)
  then obtain sy :: demo_system where sy:
    "reachable fifo_mpsc fifo_mpsc fifo_mpsc example_engine ref_quic sy"
    "sv_listening (sy_server sy)" "sy_accepted sy = k" "fifo_live (sv_closes (sy_server sy))"
    "fifo_room (sv_closes (sy_server sy)) + k = CONN_CLOSE_CHANNEL_CAPACITY"
    by auto
  show ?case
  proof (rule demo_accept_next [OF sy(1,2)])
    fix sy1 :: demo_system and d st
    assume sy1: "reachable fifo_mpsc fifo_mpsc fifo_mpsc example_engine ref_quic sy1"
      "sv_listening (sy_server sy1)" "sv_closes (sy_server sy1) = sv_closes (sy_server sy)"
      "sy_drivers sy1 = (sy_drivers sy)(sy_accepted sy \<mapsto> (d, example_conn))"
      "sy_accepted sy1 = Suc (sy_accepted sy)"
    then have driver: "sy_drivers sy1 (sy_accepted sy) = Some (d, example_conn)" by simp
    obtain c where "try_send fifo_mpsc (drv_conn_id d, peer_error ref_quic example_conn)
        (sv_closes (sy_server sy)) = Inr c" "fifo_room c = fifo_room (sv_closes (sy_server sy)) - 1"
      "fifo_live c"
      using fifo.try_send_ok [OF sy(4)] sy(5) Suc.prems by fastforce
    then show ?thesis
      using sy1 sy(3,5) Suc.prems driver
        reachable.step [OF sy1(1) end_driver_step [OF driver, where wch = fifo_mpsc
          and ech = fifo_mpsc and cch = fifo_mpsc and pe = example_engine and qc = ref_quic]]
      by (intro exI [of _ "end_driver fifo_mpsc fifo_mpsc ref_quic (sy_accepted sy) sy1"])
        (simp add: end_driver_def on_conn_close_def)
  qed
qed

theorem lost_close_leaks_connection_witness:
  "\<exists>(sy :: demo_system) d st. sy_drivers sy CONN_CLOSE_CHANNEL_CAPACITY = Some (d, example_conn) \<and>
     sv_connections (sy_server sy) (drv_conn_id d) = Some st \<and>
     sv_connections (sy_server (end_driver fifo_mpsc fifo_mpsc ref_quic
       CONN_CLOSE_CHANNEL_CAPACITY sy)) (drv_conn_id d) = Some st"
proof -
  let ?n = CONN_CLOSE_CHANNEL_CAPACITY
  obtain sy0 :: demo_system where sy0:
    "reachable fifo_mpsc fifo_mpsc fifo_mpsc example_engine ref_quic sy0"
    "sv_listening (sy_server sy0)" "sy_accepted sy0 = ?n"
    "fifo_room (sv_closes (sy_server sy0)) = 0"
    using demo_full [of ?n] by auto
  show ?thesis
  proof (rule demo_accept_next [OF sy0(1,2)])
    fix sy :: demo_system and d st
    assume sy: "reachable fifo_mpsc fifo_mpsc fifo_mpsc example_engine ref_quic sy"
      "sv_listening (sy_server sy)" "sv_closes (sy_server sy) = sv_closes (sy_server sy0)"
      "sy_drivers sy = (sy_drivers sy0)(sy_accepted sy0 \<mapsto> (d, example_conn))"
      "sy_accepted sy = Suc (sy_accepted sy0)"
      "sv_connections (sy_server sy) (drv_conn_id d) = Some st"
    have driver: "sy_drivers sy ?n = Some (d, example_conn)"
      using sy(4) sy0(3) by simp
    have after: "sy_accepted (end_driver fifo_mpsc fifo_mpsc ref_quic ?n sy) \<le> 2 ^ 64"
      "sv_listening (sy_server (end_driver fifo_mpsc fifo_mpsc ref_quic ?n sy))"
      using driver sy(2,5) sy0(3) by (simp_all add: end_driver_def CONN_CLOSE_CHANNEL_CAPACITY_def)
    show ?thesis
      using lost_close_leaks_connection [OF fifo.mpsc_fifo_axioms sy(1) driver sy(6)
          rtranclp.rtrancl_refl after(1)] after(2) sy(3,6) sy0(4) driver by auto
  qed
qed

end
