(* ===== verification/Channel_Bounds.thy ===== *)
theory Channel_Bounds
  imports System
begin

text \<open>
  The capacities of the three channels. Every operation gives back the places it takes: a place
  of a channel is free or holds a message, and no permit is lost on any of the exits of the
  driver's loops. So in every reachable state what is queued fits the capacity, whatever the
  connections do; the laws of the channels are all that is assumed.
\<close>

subsection \<open>Places of a channel\<close>

definition filled ::
  "('c \<Rightarrow> 'm list) \<Rightarrow> ('c \<Rightarrow> nat) \<Rightarrow> ('c \<Rightarrow> bool) \<Rightarrow> nat \<Rightarrow> 'c \<Rightarrow> bool" where
  "filled items room live n c \<longleftrightarrow> live c \<and> length (items c) + room c = n"

text \<open>A channel whose receiver may have been dropped: then nothing can be sent or received.\<close>

definition capped_at ::
  "('c \<Rightarrow> 'm list) \<Rightarrow> ('c \<Rightarrow> nat) \<Rightarrow> ('c \<Rightarrow> bool) \<Rightarrow> nat \<Rightarrow> 'c \<Rightarrow> bool" where
  "capped_at items room live n c \<longleftrightarrow> (live c \<longrightarrow> filled items room live n c)"

context mpsc_fifo
begin

lemma filled_channel: "0 < n \<Longrightarrow> filled items room live n (mpsc_channel ch n)"
  by (simp add: filled_def channel)

lemma filled_try_send:
  "try_send ch m c = Inr c' \<Longrightarrow> filled items room live n c \<Longrightarrow> filled items room live n c'"
  by (cases m c rule: try_send_cases) (auto simp: filled_def)

lemma filled_try_recv:
  "filled items room live n c \<Longrightarrow> try_recv ch c = Inr (m, c') \<Longrightarrow> filled items room live n c'"
  by (cases c rule: try_recv_cases) (auto simp: filled_def)

lemma capped_channel: "0 < n \<Longrightarrow> capped_at items room live n (mpsc_channel ch n)"
  by (simp add: capped_at_def filled_channel)

lemma capped_try_send:
  "try_send ch m c = Inr c' \<Longrightarrow> capped_at items room live n c \<Longrightarrow> capped_at items room live n c'"
  using filled_try_send try_send_closed [of c m] by (cases "live c") (auto simp: capped_at_def)

lemma capped_try_recv:
  "capped_at items room live n c \<Longrightarrow> try_recv ch c = Inr (m, c') \<Longrightarrow> capped_at items room live n c'"
  using filled_try_recv try_recv_closed [of c] by (cases "live c") (auto simp: capped_at_def)

lemma capped_rx_drop: "capped_at items room live n (rx_drop ch c)"
  by (simp add: capped_at_def rx_drop)

lemma filled_permit_send:
  "try_reserve ch c = Inr c' \<Longrightarrow> filled items room live n c \<Longrightarrow>
     filled items room live n (permit_send ch m c')"
  using reserve_then_send [of c c' m] by (auto simp: filled_def)

lemma filled_permit_drop:
  "try_reserve ch c = Inr c' \<Longrightarrow> filled items room live n c \<Longrightarrow>
     filled items room live n (permit_drop ch c')"
  using reserve_then_drop [of c c'] by (auto simp: filled_def)

end

subsection \<open>The loops of the driver\<close>

text \<open>Whatever the QUIC connection answers.\<close>

text \<open>The channel into which all drivers send.\<close>

locale event_channel = mpsc_fifo ech items room live
  for ech :: "('ec, u64 \<times> driver_event) mpsc" and items room live

sublocale event_channel \<subseteq> capped: reads_invariant ech "\<lambda>d. filled items room live n" for n
  by unfold_locales (auto intro: filled_permit_send filled_permit_drop)

lemma drain_channel_keeps:
  assumes "drain_channel wch p c = Some (p', c')"
    and keeps: "\<And>c w c1. P c \<Longrightarrow> try_recv wch c = Inr (w, c1) \<Longrightarrow> P c1" and "P c"
  shows "P c'"
proof -
  have "wch = wch \<longrightarrow> P c \<longrightarrow> P (snd (p', c'))"
  proof (rule drain_channel.raw_induct [where P = "\<lambda>w p c r. w = wch \<longrightarrow> P c \<longrightarrow> P (snd r)", OF _ assms(1)])
    fix drain w p c r
    assume "\<And>w p c r. drain w p c = Some r \<Longrightarrow> w = wch \<longrightarrow> P c \<longrightarrow> P (snd r)"
      and "(case try_recv w c of Inl e \<Rightarrow> Some (p, c)
         | Inr ((stream_id, data, fin), c1) \<Rightarrow>
             let bytes = case data of None \<Rightarrow> [] | Some b \<Rightarrow> b;
                 queue = case p stream_id of None \<Rightarrow> [] | Some q \<Rightarrow> q
             in drain w (p(stream_id \<mapsto> queue @ [(bytes, fin)])) c1) = Some r"
    then show "w = wch \<longrightarrow> P c \<longrightarrow> P (snd r)"
      using keeps [of c] by (cases "try_recv w c"; cases r) (fastforce simp: Let_def)+
  qed
  with assms(3) show ?thesis by simp
qed

lemma process_writes_keeps:
  assumes "process_writes wch qc ord d c q = Some (d', c', q')"
    and "\<And>c w c1. P c \<Longrightarrow> try_recv wch c = Inr (w, c1) \<Longrightarrow> P c1" and "P c"
  shows "P c'"
  using assms(1) drain_channel_keeps [where P = P, OF _ assms(2,3)]
  by (auto simp: process_writes_def bind_Some_iff split: prod.splits)

lemma process_writes_filled:
  assumes "mpsc_fifo wch items room live" "process_writes wch qc ord d c q = Some (d', c', q')"
    "filled items room live n c"
  shows "filled items room live n c'"
  by (rule process_writes_keeps [where P = "filled items room live n", OF assms(2) _ assms(3)])
    (rule mpsc_fifo.filled_try_recv [OF assms(1)])

lemma process_writes_capped:
  assumes "mpsc_fifo wch items room live" "process_writes wch qc ord d c q = Some (d', c', q')"
    "capped_at items room live n c"
  shows "capped_at items room live n c'"
  by (rule process_writes_keeps [where P = "capped_at items room live n", OF assms(2) _ assms(3)])
    (rule mpsc_fifo.capped_try_recv [OF assms(1)])

subsection \<open>The channels of the running system\<close>

text \<open>
  PHP code may queue chunks through any object it has; no write channel is filled beyond its
  capacity, and a new connection gets a channel of the same capacity.
\<close>

sublocale write_channel \<subseteq> capped: connection_invariant wch callable
    "\<lambda>s :: 'wc store. capped_at items room live WRITE_CHANNEL_CAPACITY (st_chans s w)" for callable w
proof unfold_locales
  fix s s' :: "'wc store" and cid peer st drv
  assume "capped_at items room live WRITE_CHANNEL_CAPACITY (st_chans s w)"
    "build wch cid peer s = ((st, drv), s')"
  then show "capped_at items room live WRITE_CHANNEL_CAPACITY (st_chans (emit (Started drv) s') w)"
    using build_simps(13) [of wch cid peer s st drv s'] capped_channel [of WRITE_CHANNEL_CAPACITY]
    by (simp add: WRITE_CHANNEL_CAPACITY_def)
next
  fix s :: "'wc store" and op
  assume "capped_at items room live WRITE_CHANNEL_CAPACITY (st_chans s w)"
  then show "capped_at items room live WRITE_CHANNEL_CAPACITY (st_chans (driver_does wch op s) w)"
    by (cases op) (auto split: sum.split dest: capped_try_recv intro: capped_rx_drop)
qed (auto dest: capped_try_send)

interpretation fifo_events: event_channel fifo_mpsc fifo_items fifo_room fifo_live
  by unfold_locales

interpretation fifo_writes: write_channel fifo_mpsc fifo_items fifo_room fifo_live
  by unfold_locales



context write_channel
begin

lemma write_channels_step:
  assumes "linked sy" "sys_step wch ech cch pe qc sy sy'"
    and "\<And>n d q. sy_drivers sy n = Some (d, q) \<Longrightarrow>
       capped_at items room live WRITE_CHANNEL_CAPACITY (st_chans (sy_store sy) (drv_stream_event_recv d))"
    and "sy_drivers sy' n = Some (d', q')"
  shows "capped_at items room live WRITE_CHANNEL_CAPACITY
     (st_chans (sy_store sy') (drv_stream_event_recv d'))"
  using assms(2,4)
proof (cases rule: sys_step_drivers)
  case fresh
  then show ?thesis using capped_channel by (simp add: WRITE_CHANNEL_CAPACITY_def)
next
  case (old d q)
  let ?w = "drv_stream_event_recv d"
  note cap = assms(3) [OF old(1)]
  from refl cap assms(2)
  have "capped_at items room live WRITE_CHANNEL_CAPACITY (st_chans (sy_store sy') ?w)"
  proof (cases rule: capped.sys_step_cases_inv)
    case kept
    then show ?thesis .
  next
    case (flushed m e r ord e' c r')
    show ?thesis
    proof (cases "m = n")
      case True
      then show ?thesis
        using flushed old(1) process_writes_capped [OF mpsc_fifo_axioms flushed(2)] cap by simp
    next
      case False
      then show ?thesis using recv_distinct [OF assms(1) old(1) flushed(1)] flushed(3) cap by simp
    qed
  next
    case (dropped m e r)
    then have "m \<noteq> n" using assms(4) by auto
    then show ?thesis using recv_distinct [OF assms(1) old(1) dropped(1)] dropped(2) cap by simp
  qed
  with old(2) show ?thesis by simp
qed

end

context event_channel
begin

lemma event_channel_step:
  assumes "sys_step wch ech cch pe qc sy sy'"
    and "filled items room live n (sv_events (sy_server sy))"
  shows "filled items room live n (sv_events (sy_server sy'))"
  using assms(1)
proof (cases rule: sys_step_cases)
  case (reads n d q d' c q')
  then show ?thesis
    using capped.read_loop_inv [OF _ assms(2)] by (simp add: process_reads_def)
next
  case (dispatch cid ev c s)
  then show ?thesis using filled_try_recv [OF assms(2) dispatch(2)] by simp
qed (use assms(2) in \<open>auto simp: accept_connection_def conn_closed_def server_close_def Let_def
       split: prod.splits option.splits\<close>)

lemma reachable_events:
  assumes "reachable wch ech cch pe qc sy"
  shows "filled items room live SERVER_EVENT_CHANNEL_CAPACITY (sv_events (sy_server sy))"
  using assms
proof (induction rule: reachable.induct)
  case (start sy)
  then show ?case
    using filled_channel [of SERVER_EVENT_CHANNEL_CAPACITY]
    by (auto simp: initial_def SERVER_EVENT_CHANNEL_CAPACITY_def)
next
  case (step sy sy')
  then show ?case by (blast intro: event_channel_step)
qed

end

lemma close_channel_step:
  assumes "mpsc_fifo cch items room live" "sys_step wch ech cch pe qc sy sy'"
    and "filled items room live n (sv_closes (sy_server sy))"
  shows "filled items room live n (sv_closes (sy_server sy'))"
  using assms(2)
proof (cases rule: sys_step_cases)
  case (driver_ends n d q)
  then show ?thesis
    using mpsc_fifo.filled_try_send [OF assms(1) _ assms(3)]
    by (auto simp: on_conn_close_def assms(3) split: sum.split)
next
  case (closed cid flag c ord sv s)
  then show ?thesis
    using mpsc_fifo.filled_try_recv [OF assms(1,3) closed(2)]
    by (auto simp: conn_closed_def split: option.splits)
qed (use assms(3) in \<open>auto simp: accept_connection_def server_close_def Let_def
       split: prod.splits option.splits\<close>)

lemma reachable_filled:
  assumes "mpsc_fifo wch wr_items wr_room wr_live" "mpsc_fifo cch cl_items cl_room cl_live"
    and "reachable wch ech cch pe qc sy"
  shows "filled cl_items cl_room cl_live CONN_CLOSE_CHANNEL_CAPACITY (sv_closes (sy_server sy))"
    and "sy_drivers sy n = Some (d, q) \<Longrightarrow> capped_at wr_items wr_room wr_live WRITE_CHANNEL_CAPACITY
       (st_chans (sy_store sy) (drv_stream_event_recv d))"
  using assms(3)
proof (induction arbitrary: n d q rule: reachable.induct)
  case (start sy)
  case 1
  show ?case
    using start mpsc_fifo.filled_channel [OF assms(2), of CONN_CLOSE_CHANNEL_CAPACITY]
    by (auto simp: initial_def CONN_CLOSE_CHANNEL_CAPACITY_def)
  case 2
  then show ?case using start by (simp add: initial_def)
next
  case (step sy sy')
  case 1
  show ?case by (rule close_channel_step [OF assms(2) step.hyps(2) step.IH(1)])
  case 2
  from write_channel.write_channels_step [OF write_channel.intro [OF assms(1)]
      reachable_linked [OF step.hyps(1)] step.hyps(2) step.IH(2) this]
  show ?case .
qed

subsection \<open>Properties\<close>

text \<open>C8: No channel overflows and no place is lost. In every reachable state the event channel holds
  at most 8192 events, the close channel at most 1024 reports and the write channel of every
  driver, as long as its receiver exists, at most 256 chunks, and the places without a message are
  all free: every permit the drivers reserved was used or given back, whatever the QUIC connections
  answered. This holds also when drivers take chunks or end in the middle of a callback.\<close>

theorem channels_are_bounded:
  assumes "mpsc_fifo wch wr_items wr_room wr_live" "mpsc_fifo ech ev_items ev_room ev_live"
    and "mpsc_fifo cch cl_items cl_room cl_live" "reachable wch ech cch pe qc sy"
  shows "length (ev_items (sv_events (sy_server sy))) + ev_room (sv_events (sy_server sy)) = 8192 \<and>
     length (cl_items (sv_closes (sy_server sy))) + cl_room (sv_closes (sy_server sy)) = 1024 \<and>
     (\<forall>n d q. sy_drivers sy n = Some (d, q) \<longrightarrow>
        wr_live (st_chans (sy_store sy) (drv_stream_event_recv d)) \<longrightarrow>
        length (wr_items (st_chans (sy_store sy) (drv_stream_event_recv d))) +
          wr_room (st_chans (sy_store sy) (drv_stream_event_recv d)) = 256)"
  using event_channel.reachable_events [OF event_channel.intro [OF assms(2)] assms(4)]
    reachable_filled [OF assms(1,3,4)]
  by (auto simp: filled_def capped_at_def SERVER_EVENT_CHANNEL_CAPACITY_def CONN_CLOSE_CHANNEL_CAPACITY_def
      WRITE_CHANNEL_CAPACITY_def)

theorem channels_are_bounded_witness:
  "\<exists>(sy :: demo_system) d q. sy_drivers sy 0 = Some (d, q) \<and>
     length (fifo_items (sv_events (sy_server sy))) \<le> 8192 \<and>
     length (fifo_items (st_chans (sy_store sy) (drv_stream_event_recv d))) +
       fifo_room (st_chans (sy_store sy) (drv_stream_event_recv d)) = 256"
proof (rule demo_accepted)
  fix sy :: demo_system and d
  assume sy: "reachable fifo_mpsc fifo_mpsc fifo_mpsc example_engine ref_quic sy"
    "sy_drivers sy 0 = Some (d, example_conn)"
    "fifo_live (st_chans (sy_store sy) (drv_stream_event_recv d))"
  show ?thesis
    using channels_are_bounded [OF fifo.mpsc_fifo_axioms fifo.mpsc_fifo_axioms
        fifo.mpsc_fifo_axioms sy(1)] sy(2,3)
    by (intro exI [of _ sy] exI [of _ d] exI [of _ example_conn]) auto
qed

end
