(* ===== verification/Fresh_Ids.thy ===== *)
theory Fresh_Ids
  imports Lost_Closes Channel_Bounds
begin

text \<open>
  The number of a new connection. It is free in the server's records and among the drivers
  (\<open>System\<close>); this theory adds that no message of an earlier connection that still waits in one of
  the two shared channels carries it, so that a new connection never gets the events or the close
  of another one.
\<close>

text \<open>A driver tags what it sends with its own number, whatever the QUIC connection answers.\<close>

sublocale event_channel \<subseteq> tagged: reads_invariant ech
    "\<lambda>d c. drv_conn_id d = i \<and> fst ` set (items c) \<subseteq> insert i A" for i A
  by unfold_locales (simp_all add: reserve_then_send(1) reserve_then_drop(1))

definition known_events :: "('ec \<Rightarrow> (u64 \<times> driver_event) list) \<Rightarrow> ('wc, 'ec, 'cc, 'q) system \<Rightarrow> bool" where
  "known_events items sy \<longleftrightarrow> sy_accepted sy \<le> 2 ^ 64 \<longrightarrow>
     (\<forall>i \<in> fst ` set (items (sv_events (sy_server sy))). unat i < sy_accepted sy)"

context event_channel
begin

lemma known_events_step:
  assumes "linked sy" "live (sv_events (sy_server sy))" "sys_step wch ech cch pe qc sy sy'"
    and "known_events items sy"
  shows "known_events items sy'"
  using assms(3)
proof (cases rule: sys_step_cases)
  case (accept peer sv drv s q)
  then have "sv_events sv = sv_events (sy_server sy)"
    by (auto simp: accept_connection_def Let_def split: prod.splits)
  with accept(1) assms(4) show ?thesis
    unfolding known_events_def by (fastforce intro: less_SucI)
next
  case (reads n d q d' c q')
  let ?old = "fst ` set (items (sv_events (sy_server sy)))"
  have new: "fst ` set (items c) \<subseteq> insert (drv_conn_id d) ?old"
    using tagged.read_loop_inv [OF reads(4) [unfolded process_reads_def], of "drv_conn_id d"] by auto
  have "unat i < sy_accepted sy" if "sy_accepted sy \<le> 2 ^ 64" "i \<in> fst ` set (items c)" for i
  proof (cases "i = drv_conn_id d")
    case True
    then show ?thesis using linked_driver_ids(1) [OF assms(1) reads(2) that(1)] by simp
  next
    case False
    then have "i \<in> ?old" using subsetD [OF new that(2)] by simp
    then show ?thesis using assms(4) that(1) by (auto simp: known_events_def)
  qed
  with reads(1) show ?thesis by (simp add: known_events_def)
next
  case (dispatch cid ev c s)
  have "items (sv_events (sy_server sy)) = (cid, ev) # items c"
    using dispatch(2) by (cases rule: try_recv_cases [OF assms(2)]) auto
  then show ?thesis
    using assms(4) dispatch(1) unfolding known_events_def by auto
qed (use assms(4) in \<open>auto simp: known_events_def conn_closed_def server_close_def
       split: option.splits\<close>)

lemma reachable_known_events:
  assumes "reachable wch ech cch pe qc sy"
  shows "known_events items sy"
  using assms
proof (induction rule: reachable.induct)
  case (start sy)
  then show ?case
    using channel(1) [of SERVER_EVENT_CHANNEL_CAPACITY]
    by (auto simp: initial_def known_events_def SERVER_EVENT_CHANNEL_CAPACITY_def)
next
  case (step sy sy')
  have "live (sv_events (sy_server sy))"
    using reachable_events [OF step.hyps(1)] by (simp add: filled_def)
  then show ?case
    by (rule known_events_step [OF reachable_linked [OF step.hyps(1)] _ step.hyps(2) step.IH])
qed

end

text \<open>C9: A new connection starts clean. In every reachable state, as long as fewer than \<open>2 ^ 64\<close>
  connections have been accepted, the number that the next connection gets belongs to nobody: no
  record of the server and no running driver has it, not even a driver whose record is gone
  already, and no event or close report with this number is queued. So accepting replaces no
  record, and what the loop handles for the new number is the new connection's own.\<close>

theorem new_connection_starts_clean:
  assumes "mpsc_fifo ech ev_items ev_room ev_live" "mpsc_fifo cch cl_items cl_room cl_live"
    and "reachable wch ech cch pe qc sy" "sy_accepted sy < 2 ^ 64"
    and "accept_connection wch peer (sy_server sy) (sy_store sy) = ((sv, drv), s)"
  shows "sv_connections (sy_server sy) (drv_conn_id drv) = None \<and>
     (\<forall>n d q. sy_drivers sy n = Some (d, q) \<longrightarrow> drv_conn_id d \<noteq> drv_conn_id drv) \<and>
     dom (sv_connections sv) = insert (drv_conn_id drv) (dom (sv_connections (sy_server sy))) \<and>
     drv_conn_id drv \<notin> fst ` set (ev_items (sv_events sv)) \<and>
     drv_conn_id drv \<notin> fst ` set (cl_items (sv_closes sv))"
proof -
  note free = accept_takes_free_id [OF assms(3-5)]
  have ch: "sv_events sv = sv_events (sy_server sy)" "sv_closes sv = sv_closes (sy_server sy)"
    using assms(5) by (auto simp: accept_connection_def Let_def split: prod.splits)
  have "drv_conn_id drv \<notin> fst ` set (ev_items (sv_events (sy_server sy)))"
    using event_channel.reachable_known_events [OF event_channel.intro [OF assms(1)] assms(3)]
      free assms(4) by (auto simp: known_events_def)
  moreover have "drv_conn_id drv \<notin> fst ` set (cl_items (sv_closes (sy_server sy)))"
    using reachable_reported [OF assms(2,3)] free assms(4) by (auto simp: reported_def)
  ultimately show ?thesis
    using free ch by simp
qed

theorem new_connection_starts_clean_witness:
  "\<exists>(sy :: demo_system) sv drv s.
     sv_connections (sy_server sy) 0 \<noteq> None \<and>
     accept_connection fifo_mpsc [] (sy_server sy) (sy_store sy) = ((sv, drv), s) \<and>
     sv_connections (sy_server sy) (drv_conn_id drv) = None \<and>
     drv_conn_id drv \<notin> fst ` set (fifo_items (sv_events sv))"
proof (rule demo_accepted)
  fix sy :: demo_system and st
  assume sy: "reachable fifo_mpsc fifo_mpsc fifo_mpsc example_engine ref_quic sy"
    "sy_accepted sy = 1" "sv_connections (sy_server sy) = [0 \<mapsto> st]"
  obtain sv drv s where acc: "accept_connection fifo_mpsc [] (sy_server sy) (sy_store sy) =
      ((sv, drv), s)"
    by (metis prod.exhaust)
  then show ?thesis
    using sy new_connection_starts_clean [OF fifo.mpsc_fifo_axioms fifo.mpsc_fifo_axioms sy(1) _ acc]
    by (intro exI [of _ sy] exI [of _ sv] exI [of _ drv] exI [of _ s]) simp
qed

end
