(* ===== verification/Backlog.thy ===== *)
theory Backlog
  imports Server_Correct
begin

text \<open>
  How \<open>tick\<close> is left. The timer is the last arm of the biased \<open>select!\<close>, so a signalled
  eventfd waits behind everything that is queued; this theory shows that it does not wait for ever.
\<close>

text \<open>No arm of the loop takes more than one message, and handling one sends none.\<close>

lemma handle_event_channels:
  assumes "handle_event wch pe ord ev sv s = Some (leave, sv', s')"
  shows "sv_events sv' = sv_events sv \<and> sv_closes sv' = sv_closes sv"
  using assms
  by (auto simp: handle_event_def accept_connection_def conn_closed_def Let_def
      split: tick_event.splits sum.splits prod.splits option.splits)

text \<open>What waits for the loop, and what a pass finds on top of it at most.\<close>

definition backlog ::
  "('ec \<Rightarrow> (u64 \<times> driver_event) list) \<Rightarrow> ('cc \<Rightarrow> (u64 \<times> bool) list) \<Rightarrow> ('ec, 'cc) server \<Rightarrow> nat" where
  "backlog ev_items cl_items sv =
     length (ev_items (sv_events sv)) + length (cl_items (sv_closes sv))"

definition connecting :: "('ec, 'cc) tick_input \<Rightarrow> nat" where
  "connecting inp = (if ti_accept inp = None then 0 else 1)"

context server_channels
begin

lemma tick_exits:
  assumes "data_safe pe" "close_safe pe UNIV"
    and "\<And>inp c. inp \<in> set inps \<Longrightarrow> ev_live c \<Longrightarrow> ev_live (ti_events inp c) \<and>
           length (ev_items (ti_events inp c)) \<le> length (ev_items c) + ke inp"
    and "\<And>inp c. inp \<in> set inps \<Longrightarrow> cl_live c \<Longrightarrow> cl_live (ti_closes inp c) \<and>
           length (cl_items (ti_closes inp c)) \<le> length (cl_items c) + kc inp"
    and "\<And>inp. inp \<in> set inps \<Longrightarrow> ti_readable inp"
    and "ev_live (sv_events sv)" "cl_live (sv_closes sv)"
    and "backlog ev_items cl_items sv + (\<Sum>inp\<leftarrow>inps. ke inp + kc inp + connecting inp) < length inps"
  shows "\<exists>sv' s'. tick wch ech cch pe ord True inps sv s = Some (Exited, sv', s') \<and>
     backlog ev_items cl_items sv' = 0"
  using assms(3-8)
proof (induction inps arbitrary: sv s)
  case Nil
  then show ?case by simp
next
  case (Cons inp inps)
  let ?sv = "sv\<lparr>sv_events := ti_events inp (sv_events sv), sv_closes := ti_closes inp (sv_closes sv)\<rparr>"
  have live: "ev_live (sv_events ?sv)" "cl_live (sv_closes ?sv)"
    and more: "backlog ev_items cl_items ?sv \<le> backlog ev_items cl_items sv + ke inp + kc inp"
    using Cons.prems(1) [of inp "sv_events sv"] Cons.prems(2) [of inp "sv_closes sv"] Cons.prems(4,5)
    by (simp_all add: backlog_def)
  have rest: "\<exists>sv' s'. tick wch ech cch pe ord True inps sv2 s2 = Some (Exited, sv', s') \<and>
      backlog ev_items cl_items sv' = 0"
    if "ev_live (sv_events sv2)" "cl_live (sv_closes sv2)"
      "backlog ev_items cl_items sv2 < backlog ev_items cl_items ?sv + connecting inp" for sv2 s2
    using that Cons.prems(3,6) more
    by (intro Cons.IH) (use Cons.prems(1,2) in \<open>auto\<close>)
  have pass: ?case
    if sel: "select_event ech cch (ti_accept inp) (Some True) ?sv = Some (ev, sv1)"
      and ch: "ev_live (sv_events sv1)" "cl_live (sv_closes sv1)" "ev \<noteq> TimerFired"
        "backlog ev_items cl_items sv1 < backlog ev_items cl_items ?sv + connecting inp" for ev sv1
  proof -
    obtain leave sv2 s2 where h: "handle_event wch pe ord ev sv1 s = Some (leave, sv2, s2)"
      using handle_event_returns [OF assms(1,2), of wch ord ev sv1 s] by auto
    then have "\<not> leave" using handle_event_leaves [of wch pe ord ev sv1 s sv2 s2] ch(3) by (cases leave) auto
    moreover have "\<exists>sv' s'. tick wch ech cch pe ord True inps sv2 s2 = Some (Exited, sv', s') \<and>
        backlog ev_items cl_items sv' = 0"
      using handle_event_channels [OF h] ch by (intro rest) (auto simp: backlog_def)
    ultimately show ?thesis
      using sel h Cons.prems(3) by (simp add: Let_def)
  qed
  show ?case
    using live
  proof (cases rule: select_event_cases [where accept = "ti_accept inp" and efd = "Some True"])
    case (driver cid ev c)
    then show ?thesis using live by (intro pass [OF driver(4)]) (auto simp: backlog_def)
  next
    case (close cid flag c)
    then show ?thesis using live by (intro pass [OF close(4)]) (auto simp: backlog_def)
  next
    case (accept r)
    then show ?thesis using live by (intro pass [OF accept(5)]) (auto simp: backlog_def connecting_def)
  next
    case timer
    then show ?thesis
      using Cons.prems(3) by (auto simp: Let_def handle_event_def backlog_def)
  next
    case idle
    then show ?thesis by simp
  qed
qed

end

text \<open>C17: A signalled eventfd ends \<open>tick\<close>. Whatever is queued, and whatever drivers and clients add
  while the loop runs, \<open>tick\<close> of a server whose eventfd is readable is left as soon as its passes
  outnumber the events, close messages and connections there were, provided that the callbacks
  keep off the locks they run under; and when it is left, both channels are empty. So it is left
  after finitely many passes unless the server is kept busy for ever.\<close>

theorem tick_leaves_after_backlog:
  assumes "server_channels ech ev_items ev_room ev_live cch cl_items cl_room cl_live"
    and "data_safe pe" "close_safe pe UNIV"
    and "\<And>inp c. inp \<in> set inps \<Longrightarrow> ev_live c \<Longrightarrow> ev_live (ti_events inp c) \<and>
           length (ev_items (ti_events inp c)) \<le> length (ev_items c) + ke inp"
    and "\<And>inp c. inp \<in> set inps \<Longrightarrow> cl_live c \<Longrightarrow> cl_live (ti_closes inp c) \<and>
           length (cl_items (ti_closes inp c)) \<le> length (cl_items c) + kc inp"
    and "\<And>inp. inp \<in> set inps \<Longrightarrow> ti_readable inp"
    and "ev_live (sv_events sv)" "cl_live (sv_closes sv)"
    and "backlog ev_items cl_items sv + (\<Sum>inp\<leftarrow>inps. ke inp + kc inp + connecting inp) < length inps"
  shows "\<exists>sv' s'. tick wch ech cch pe ord True inps sv s = Some (Exited, sv', s') \<and>
     ev_items (sv_events sv') = [] \<and> cl_items (sv_closes sv') = []"
  using server_channels.tick_exits [where ke = ke and kc = kc, OF assms, of wch ord s]
  by (auto simp: backlog_def)

text \<open>
  Two events are queued, and a close message and two clients come in while the loop runs: the sixth
  pass finds nothing but the timer.
\<close>

definition busy_inputs :: "((u64 \<times> driver_event) fifo, (u64 \<times> bool) fifo) tick_input list" where
  "busy_inputs =
     [\<lparr>ti_events = id, ti_closes = id, ti_accept = None, ti_readable = True\<rparr>,
      \<lparr>ti_events = id, ti_closes = (\<lambda>c. c\<lparr>fifo_items := fifo_items c @ [(7, True)]\<rparr>),
       ti_accept = None, ti_readable = True\<rparr>,
      \<lparr>ti_events = id, ti_closes = id, ti_accept = Some (Inr ''[::1]:5''), ti_readable = True\<rparr>,
      \<lparr>ti_events = id, ti_closes = id, ti_accept = Some (Inr ''[::1]:5''), ti_readable = True\<rparr>,
      \<lparr>ti_events = id, ti_closes = id, ti_accept = None, ti_readable = True\<rparr>,
      \<lparr>ti_events = id, ti_closes = id, ti_accept = None, ti_readable = True\<rparr>]"

theorem tick_leaves_after_backlog_witness:
  "\<exists>sv' s'. tick fifo_mpsc fifo_mpsc fifo_mpsc example_engine sorted_list_of_set True busy_inputs
       (demo_server\<lparr>sv_events := \<lparr>fifo_items = [(7, Data 0 [1] False), (7, Data 0 [2] True)],
          fifo_room = 8190, fifo_live = True\<rparr>\<rparr>) demo_store = Some (Exited, sv', s') \<and>
     fifo_items (sv_events sv') = [] \<and> fifo_items (sv_closes sv') = []"
  by (rule tick_leaves_after_backlog [OF ref_server.server_channels_axioms example_engine_safe,
        where ke = "\<lambda>_. 0" and
        kc = "\<lambda>inp. length (fifo_items (ti_closes inp \<lparr>fifo_items = [], fifo_room = 9, fifo_live = True\<rparr>))"])
    (auto simp: busy_inputs_def demo_server_def fifo_mpsc_def backlog_def connecting_def)

end
