(* ===== verification/Delivery.thy ===== *)
theory Delivery
  imports Channel_Bounds Lost_Closes
begin

text \<open>
  The read path of a running server. \<open>Read_Path\<close> follows a client's bytes through one
  \<open>process_reads\<close> and the passes of \<open>tick\<close> after it; this theory follows them through any run of
  the whole system, in which all drivers, the server loop, PHP and the network take their steps in
  any order and all connections share the event channel.
\<close>

subsection \<open>Runs and what happens in them\<close>

inductive sys_run ::
  "('wc, stream_writer) mpsc \<Rightarrow> ('ec, u64 \<times> driver_event) mpsc \<Rightarrow> ('cc, u64 \<times> bool) mpsc \<Rightarrow>
   'wc php_engine \<Rightarrow> 'q quic \<Rightarrow> 'q sys_label list \<Rightarrow> ('wc, 'ec, 'cc, 'q) system \<Rightarrow>
   ('wc, 'ec, 'cc, 'q) system \<Rightarrow> bool"
  for wch ech cch pe qc where
  stop: "sys_run wch ech cch pe qc [] sy sy"
| move: "sys_move wch ech cch pe qc l sy sy1 \<Longrightarrow> sys_run wch ech cch pe qc ls sy1 sy' \<Longrightarrow>
    sys_run wch ech cch pe qc (l # ls) sy sy'"

inductive_simps sys_run_simps [simp]:
  "sys_run wch ech cch pe qc [] sy sy'" "sys_run wch ech cch pe qc (l # ls) sy sy'"

lemma sys_run_steps: "sys_run wch ech cch pe qc ls sy sy' \<Longrightarrow> (sys_step wch ech cch pe qc)\<^sup>*\<^sup>* sy sy'"
  by (induction rule: sys_run.induct) (auto intro: converse_rtranclp_into_rtranclp sys_moveI)

text \<open>
  \<open>arrived\<close>: what the network appended to the unread data of stream \<open>i\<close> of driver \<open>n\<close>.
  \<open>grows\<close>: the network only appends to the unread data of driver \<open>n\<close>. \<open>handed_over\<close>: the bytes of
  stream \<open>i\<close> of connection \<open>cid\<close> that the loop took from the event channel and dispatched.
\<close>

fun arrived :: "('q \<Rightarrow> u64 \<Rightarrow> bytes) \<Rightarrow> nat \<Rightarrow> u64 \<Rightarrow> 'q sys_label \<Rightarrow> bytes" where
  "arrived unread n i (Network m q q') = (if m = n then drop (length (unread q i)) (unread q' i) else [])"
| "arrived unread n i _ = []"

fun grows :: "('q \<Rightarrow> u64 \<Rightarrow> bytes) \<Rightarrow> nat \<Rightarrow> u64 \<Rightarrow> 'q sys_label \<Rightarrow> bool" where
  "grows unread n i (Network m q q') \<longleftrightarrow> m = n \<longrightarrow> prefix (unread q i) (unread q' i)"
| "grows unread n i _ \<longleftrightarrow> True"

fun handed_over :: "u64 \<Rightarrow> u64 \<Rightarrow> 'q sys_label \<Rightarrow> bytes" where
  "handed_over cid i (Dispatches c ev) = (if c = cid then event_data i [ev] else [])"
| "handed_over cid i _ = []"

text \<open>What waits in the event channel for stream \<open>i\<close> of connection \<open>cid\<close>.\<close>

definition queued_data :: "u64 \<Rightarrow> u64 \<Rightarrow> (u64 \<times> driver_event) list \<Rightarrow> bytes" where
  "queued_data cid i ms = event_data i (map snd (filter (\<lambda>m. fst m = cid) ms))"

lemma event_data_Cons: "event_data i (e # es) = event_data i [e] @ event_data i es"
  by (cases e) simp_all

lemma queued_data_simps [simp]:
  "queued_data cid i [] = []"
  "queued_data cid i (m # ms) = (if fst m = cid then event_data i [snd m] else []) @ queued_data cid i ms"
  "queued_data cid i (ms @ ms') = queued_data cid i ms @ queued_data cid i ms'"
  by (simp_all add: queued_data_def event_data_Cons [of i "snd m" "map f ms" for f ms])

lemma queued_data_tagged:
  "queued_data cid i (map (Pair c) es) = (if c = cid then event_data i es else [])"
  by (simp add: queued_data_def filter_map o_def)

subsection \<open>What the driver's loops do to the unread data\<close>

context quic_duplex
begin

lemma flush_stream_unread:
  "flush_stream qc i qu q = Some (r, q') \<Longrightarrow> unread q' = unread q"
proof (induction qu arbitrary: q)
  case Nil
  then show ?case by simp
next
  case (Cons chunk rest)
  obtain b fin where chunk: "chunk = (b, fin)" by force
  obtain a q1 where send: "stream_send qc i b fin q = (a, q1)" by force
  with Cons chunk send_unread [OF send] show ?case
    by (auto split: sum.splits if_splits quic_error.splits)
qed

lemma retain_pending_unread:
  "retain_pending qc ks m q = Some (m', q') \<Longrightarrow> unread q' = unread q"
  by (induction ks arbitrary: m q)
    (auto split: option.splits prod.splits dest: flush_stream_unread)

lemma process_writes_unread:
  "process_writes wch qc ord d c q = Some (d', c', q') \<Longrightarrow> unread q' = unread q"
  by (auto simp: process_writes_def bind_Some_iff split: prod.splits dest: retain_pending_unread)

end

subsection \<open>One step\<close>

text \<open>A driver that has ended does not come back.\<close>

lemma ended_for_good:
  assumes "linked sy" "sys_step wch ech cch pe qc sy sy'" "n < sy_accepted sy" "sy_drivers sy n = None"
  shows "sy_drivers sy' n = None"
proof (rule ccontr)
  assume "sy_drivers sy' n \<noteq> None"
  then obtain d q where "sy_drivers sy' n = Some (d, q)" by auto
  from assms(2) this show False
    by (cases rule: sys_step_drivers) (use assms(3,4) in auto)
qed

lemma accepted_mono: "sys_step wch ech cch pe qc sy sy' \<Longrightarrow> sy_accepted sy \<le> sy_accepted sy'"
  by (cases rule: sys_step_cases) auto

lemma driver_accepted:
  assumes "linked sy" "sy_drivers sy n = Some (d, q)"
  shows "n < sy_accepted sy"
proof -
  have "links (sy_drivers sy) n = Some (drv_conn_id d, drv_stream_event_recv d, drv_write_notify d)"
    using assms(2) by (simp add: links_def)
  with assms(1) show ?thesis unfolding linked_def drivers_ok_def by blast
qed

lemma driver_id_distinct:
  assumes "linked sy" "sy_accepted sy \<le> 2 ^ 64" "sy_drivers sy n = Some (d, q)"
    "sy_drivers sy m = Some (e, r)" "m \<noteq> n"
  shows "drv_conn_id e \<noteq> drv_conn_id d"
proof
  assume "drv_conn_id e = drv_conn_id d"
  moreover have "((sy_drivers sy)(n := None)) m = Some (e, r)" using assms(4,5) by simp
  ultimately have "drv_conn_id d \<in> driver_ids ((sy_drivers sy)(n := None))"
    unfolding driver_ids_def by (metis (mono_tags, lifting) mem_Collect_eq)
  then show False using linked_driver_ids(2) [OF assms(1,3,2)] by blast
qed

lemma append_steps: "a @ b @ c = h @ y @ u \<Longrightarrow> (y @ u) @ cs = hs @ z \<Longrightarrow> a @ b @ c @ cs = h @ hs @ z"
  by (metis append_assoc)

locale delivery_env = driver_env ech items room live qc armed unread +
  quic_duplex qc armed unread + event_channel ech items room live
  for ech :: "('ec, u64 \<times> driver_event) mpsc" and items room live
    and qc :: "'q quic" and armed unread
begin

text \<open>
  Whoever takes a step: what is queued and unread of a stream, with what arrives, is what is handed
  over, followed by what is queued and unread then.
\<close>

lemma move_delivers:
  assumes "linked sy" "live (sv_events (sy_server sy))" "sy_accepted sy \<le> 2 ^ 64"
    and "sy_drivers sy n = Some (d, q)" "sys_move wch ech cch pe qc l sy sy'"
    and "sy_drivers sy' n = Some (d', q')" "grows unread n i l"
  shows "drv_conn_id d' = drv_conn_id d \<and>
     queued_data (drv_conn_id d) i (items (sv_events (sy_server sy))) @ unread q i @ arrived unread n i l =
     handed_over (drv_conn_id d) i l @
       queued_data (drv_conn_id d) i (items (sv_events (sy_server sy'))) @ unread q' i"
  using assms(5)
proof (cases rule: sys_move.cases)
  case (accept peer sv drv s q0)
  then have "sv_events sv = sv_events (sy_server sy)"
    by (auto simp: accept_connection_def Let_def split: prod.splits)
  then show ?thesis
    using accept(1,2) assms(4,6) driver_accepted [OF assms(1,4)] by (auto split: if_splits)
next
  case (network m e r r')
  then show ?thesis
    using assms(4,6,7) by (auto simp: prefix_def split: if_splits)
next
  case (established m e r)
  then show ?thesis
    using assms(4,6) by (auto simp: on_conn_established_def split: if_splits)
next
  case (reads m e r e' c r')
  obtain es where es: "delivers items room unread e (sv_events (sy_server sy)) r es e' c r'"
    using read_loop_ends [OF assms(2), of e r] reads(5) by (auto simp: process_reads_def)
  show ?thesis
  proof (cases "m = n")
    case True
    then show ?thesis
      using es reads(1-3) assms(4,6) delivers_driver(1) [OF es]
      by (auto simp: delivers_def queued_data_tagged)
  next
    case False
    then have "drv_conn_id e \<noteq> drv_conn_id d"
      using driver_id_distinct [OF assms(1,3,4) reads(3)] by simp
    then show ?thesis
      using es reads(1-3) assms(4,6) False by (auto simp: delivers_def queued_data_tagged)
  qed
next
  case (writes m e r ord e' c r')
  have "unread r' = unread r" "drv_conn_id e' = drv_conn_id e"
    using process_writes_unread [OF writes(6)] writes(6)
    by (auto simp: process_writes_def bind_Some_iff split: prod.splits)
  then show ?thesis
    using writes(1-3) assms(4,6) by (auto split: if_splits)
next
  case (driver_ends m e r)
  then show ?thesis
    using assms(4,6) by (auto split: if_splits)
next
  case (dispatch cid ev c s)
  have "items (sv_events (sy_server sy)) = (cid, ev) # items c"
    using dispatch(3) by (cases rule: ev.try_recv_cases [OF assms(2)]) auto
  then show ?thesis
    using dispatch(1,2) assms(4,6) by auto
next
  case (closed cid flag c ord sv s)
  then show ?thesis
    using assms(4,6) by (auto simp: conn_closed_def split: option.splits)
next
  case (php p s)
  then show ?thesis using assms(4,6) by simp
next
  case (close mord cord sv s)
  then show ?thesis
    using assms(4,6) by (auto simp: server_close_def split: option.splits)
qed

text \<open>In a run the count of connections grows, and a driver that has ended does not come back.\<close>

lemma run_ended:
  assumes "sys_run wch ech cch pe qc ls sy sy'" "reachable wch ech cch pe qc sy"
  shows "sy_accepted sy \<le> sy_accepted sy' \<and>
     (n < sy_accepted sy \<longrightarrow> sy_drivers sy n = None \<longrightarrow> sy_drivers sy' n = None)"
  using assms
proof (induction rule: sys_run.induct)
  case (move l sy sy1 ls sy')
  note step = sys_moveI [OF move.hyps(1)]
  have "sy_accepted sy1 \<le> sy_accepted sy' \<and>
      (n < sy_accepted sy1 \<longrightarrow> sy_drivers sy1 n = None \<longrightarrow> sy_drivers sy' n = None)"
    by (rule move.IH [OF reachable.step [OF move.prems step]])
  then show ?case
    using accepted_mono [OF step] ended_for_good [OF reachable_linked [OF move.prems] step] by force
qed simp

lemma run_delivers:
  assumes "sys_run wch ech cch pe qc ls sy sy'" "reachable wch ech cch pe qc sy"
    and "sy_accepted sy' \<le> 2 ^ 64" "sy_drivers sy n = Some (d, q)" "sy_drivers sy' n = Some (d', q')"
    and "list_all (grows unread n i) ls"
  shows "queued_data (drv_conn_id d) i (items (sv_events (sy_server sy))) @ unread q i @
       concat (map (arrived unread n i) ls) =
     concat (map (handed_over (drv_conn_id d) i) ls) @
       queued_data (drv_conn_id d) i (items (sv_events (sy_server sy'))) @ unread q' i"
  using assms
proof (induction arbitrary: d q rule: sys_run.induct)
  case (stop sy)
  then show ?case by simp
next
  case (move l sy sy1 ls sy')
  let ?cid = "drv_conn_id d"
  note linked = reachable_linked [OF move.prems(1)]
  note step = sys_moveI [OF move.hyps(1)]
  have live: "live (sv_events (sy_server sy))"
    using reachable_events [OF move.prems(1)] by (simp add: filled_def)
  have reach1: "reachable wch ech cch pe qc sy1"
    by (rule reachable.step [OF move.prems(1) step])
  have later: "sy_accepted sy1 \<le> sy_accepted sy'"
    "n < sy_accepted sy1 \<longrightarrow> sy_drivers sy1 n = None \<longrightarrow> sy_drivers sy' n = None"
    using run_ended [OF move.hyps(2) reach1] by auto
  have acc: "n < sy_accepted sy" "sy_accepted sy \<le> sy_accepted sy1"
    using driver_accepted [OF linked move.prems(3)] accepted_mono [OF step] by auto
  then obtain d1 q1 where alive: "sy_drivers sy1 n = Some (d1, q1)"
    using later move.prems(4) by (cases "sy_drivers sy1 n") auto
  have grow: "grows unread n i l" "list_all (grows unread n i) ls"
    using move.prems(5) by simp_all
  have one: "drv_conn_id d1 = ?cid"
    "queued_data ?cid i (items (sv_events (sy_server sy))) @ unread q i @ arrived unread n i l =
     handed_over ?cid i l @ queued_data ?cid i (items (sv_events (sy_server sy1))) @ unread q1 i"
    using move_delivers [OF linked live _ move.prems(3) move.hyps(1) alive grow(1)]
      acc(2) later move.prems(2) by auto
  from append_steps [OF one(2) move.IH [OF reach1 move.prems(2) alive move.prems(4) grow(2),
        unfolded one(1), folded append_assoc [of _ "unread q1 i"]]]
  show ?case by simp
qed

end

interpretation ref_delivery: delivery_env fifo_mpsc fifo_items fifo_room fifo_live
    ref_quic rc_armed rc_unread
  by unfold_locales

subsection \<open>Properties\<close>

text \<open>C3: Nothing that a client sends is lost, repeated or reordered between its QUIC connection and
  the dispatch in the server loop, while its driver runs. Take any run of the whole system, from
  any reachable state, in which the network only appends to what is unread: reads and writes of
  all drivers, new and closed connections, PHP code and the loop interleave in any way. What was
  queued and unread of a stream at the start, followed by everything that arrived meanwhile, is
  exactly what the loop has dispatched for the stream, in this order, followed by what is queued
  and unread at the end. Events of other connections in the shared channel do not get in between.\<close>

theorem client_bytes_are_dispatched_in_order:
  assumes "delivery_env ech items room live qc armed unread"
    and "reachable wch ech cch pe qc sy" "sys_run wch ech cch pe qc ls sy sy'"
    and "sy_drivers sy n = Some (d, q)" "sy_drivers sy' n = Some (d', q')" "sy_accepted sy' \<le> 2 ^ 64"
    and "list_all (grows unread n i) ls"
  shows "queued_data (drv_conn_id d) i (items (sv_events (sy_server sy))) @ unread q i @
       concat (map (arrived unread n i) ls) =
     concat (map (handed_over (drv_conn_id d) i) ls) @
       queued_data (drv_conn_id d) i (items (sv_events (sy_server sy'))) @ unread q' i"
  by (rule delivery_env.run_delivers [OF assms(1,3,2,6,4,5,7)])

theorem client_bytes_are_dispatched_in_order_witness:
  "\<exists>(sy :: demo_system) sy' q1 q2 d' q'.
     sys_run fifo_mpsc fifo_mpsc fifo_mpsc example_engine ref_quic
       [Network 0 q1 q2, Established 0, Reads 0] sy sy' \<and>
     rc_unread q1 0 = [10, 11, 12] \<and> sy_drivers sy' 0 = Some (d', q') \<and>
     queued_data 0 0 (fifo_items (sv_events (sy_server sy'))) @ rc_unread q' 0 = [10, 11, 12, 13]"
proof (rule demo_accepted)
  fix sy :: demo_system and d
  assume sy: "reachable fifo_mpsc fifo_mpsc fifo_mpsc example_engine ref_quic sy"
    "sy_accepted sy = 1" "sy_drivers sy 0 = Some (d, example_conn)" "drv_conn_id d = 0"
    "fifo_items (sv_events (sy_server sy)) = []"
  let ?q2 = "example_conn\<lparr>rc_unread := (rc_unread example_conn)(0 := [10, 11, 12, 13])\<rparr>"
  let ?ls = "[Network 0 example_conn ?q2, Established 0, Reads 0]"
  let ?ev = "sv_events (sy_server sy)" and ?d = "on_conn_established d"
  have live: "fifo_live ?ev"
    using fifo_events.reachable_events [OF sy(1)] by (simp add: filled_def)
  obtain d' c q' where r: "process_reads fifo_mpsc ref_quic ?d ?ev ?q2 = Some (d', c, q')"
    using ref_env.read_loop_ends [OF live, of ?d ?q2] by (auto simp: process_reads_def)
  let ?sy1 = "sy\<lparr>sy_drivers := (sy_drivers sy)(0 \<mapsto> (d, ?q2))\<rparr>"
  let ?sy2 = "?sy1\<lparr>sy_drivers := (sy_drivers ?sy1)(0 \<mapsto> (?d, ?q2))\<rparr>"
  let ?sy3 = "?sy2\<lparr>sy_server := (sy_server ?sy2)\<lparr>sv_events := c\<rparr>,
    sy_drivers := (sy_drivers ?sy2)(0 \<mapsto> (d', q'))\<rparr>"
  have run: "sys_run fifo_mpsc fifo_mpsc fifo_mpsc example_engine ref_quic ?ls sy ?sy3"
  proof (intro sys_run.intros)
    show "sys_move fifo_mpsc fifo_mpsc fifo_mpsc example_engine ref_quic
        (Network 0 example_conn ?q2) sy ?sy1"
      by (rule sys_move.network [OF sy(3)])
    show "sys_move fifo_mpsc fifo_mpsc fifo_mpsc example_engine ref_quic (Established 0) ?sy1 ?sy2"
      by (rule sys_move.established) simp
    show "sys_move fifo_mpsc fifo_mpsc fifo_mpsc example_engine ref_quic (Reads 0) ?sy2 ?sy3"
      by (rule sys_move.reads [where d = ?d and q = ?q2])
        (use r in \<open>simp_all add: on_conn_established_def should_act_def\<close>)
  qed (rule sys_run.stop)
  have ends: "sy_drivers ?sy3 0 = Some (d', q')" "sy_accepted ?sy3 \<le> 2 ^ 64"
    "list_all (grows rc_unread 0 0) ?ls" "rc_unread example_conn 0 = [10, 11, 12]"
    using sy(2) by (simp_all add: example_conn_def prefix_def)
  from client_bytes_are_dispatched_in_order [OF ref_delivery.delivery_env_axioms sy(1) run sy(3) ends(1-3)]
  have "queued_data 0 0 (fifo_items c) @ rc_unread q' 0 = [10, 11, 12, 13]"
    using sy(4,5) ends(4) by simp
  then show ?thesis
    using run ends(1,4)
    by (intro exI [of _ sy] exI [of _ ?sy3] exI [of _ example_conn] exI [of _ ?q2] exI [of _ d']
        exI [of _ q']) simp
qed

end
