(* ===== verification/Wakeups.thy ===== *)
theory Wakeups
  imports Driver_Reads Write_Path
begin

text \<open>
  The race between PHP's \<open>write\<close> and the driver's sleep. \<open>send_chunk\<close> and \<open>process_writes\<close> treat a
  call of \<open>write\<close> and a pass of the driver as single steps; here they are taken apart into the
  operations on what the two threads share, the write channel and the \<open>Notify\<close>, and these
  interleave in any way:
  \<^item> \<open>write\<close> and \<open>close\<close> of the stream classes first \<open>try_send\<close> and then \<open>notify_one\<close>, which
    leaves a permit; on an error of \<open>try_send\<close> they return at once;
  \<^item> the driver waits in \<open>wait_for_data\<close> for a permit, or is woken by tokio-quiche for another
    reason (a packet, a timer), then takes chunks until \<open>try_recv\<close> fails, then flushes.

  \<open>wk_writer\<close> is what is left of the call that the PHP thread is in.
\<close>

subsection \<open>The two threads\<close>

datatype write_op = TrySend | NotifyOne

definition write_ops :: "write_op list" where
  "write_ops = [TrySend, NotifyOne]"

definition push_chunk ::
  "stream_writer \<Rightarrow> (u64 \<rightharpoonup> (bytes \<times> bool) list) \<Rightarrow> (u64 \<rightharpoonup> (bytes \<times> bool) list)" where
  "push_chunk w pending =
     (case w of (stream_id, data, fin) \<Rightarrow>
        pending(stream_id \<mapsto> (case pending stream_id of Some q \<Rightarrow> q | None \<Rightarrow> []) @
          [(case data of Some b \<Rightarrow> b | None \<Rightarrow> [], fin)]))"

datatype driver_pc = Waiting | Draining | Flushing

record ('wc, 'q) wake_state =
  wk_chan :: 'wc
  wk_permit :: bool
  wk_writer :: "write_op list"
  wk_chunk :: stream_writer
  wk_driver :: driver_pc
  wk_pending :: "u64 \<rightharpoonup> (bytes \<times> bool) list"
  wk_conn :: 'q

inductive wake_step ::
  "('wc, stream_writer) mpsc \<Rightarrow> 'q quic \<Rightarrow> ('wc, 'q) wake_state \<Rightarrow> ('wc, 'q) wake_state \<Rightarrow> bool"
  for wch qc where
  call: "wk_writer x = [] \<Longrightarrow>
     wake_step wch qc x (x\<lparr>wk_writer := write_ops, wk_chunk := w\<rparr>)"
| sends: "wk_writer x = TrySend # ops \<Longrightarrow> try_send wch (wk_chunk x) (wk_chan x) = Inr c \<Longrightarrow>
     wake_step wch qc x (x\<lparr>wk_chan := c, wk_writer := ops\<rparr>)"
| throws: "wk_writer x = TrySend # ops \<Longrightarrow> try_send wch (wk_chunk x) (wk_chan x) = Inl e \<Longrightarrow>
     wake_step wch qc x (x\<lparr>wk_writer := []\<rparr>)"
| notifies: "wk_writer x = NotifyOne # ops \<Longrightarrow>
     wake_step wch qc x (x\<lparr>wk_permit := True, wk_writer := ops\<rparr>)"
| wakes: "wk_driver x = Waiting \<Longrightarrow> wait_for_data (wk_permit x) = Some () \<Longrightarrow>
     wake_step wch qc x (x\<lparr>wk_permit := False, wk_driver := Draining\<rparr>)"
| disturbed: "wk_driver x = Waiting \<Longrightarrow>
     wake_step wch qc x (x\<lparr>wk_driver := Draining, wk_conn := q\<rparr>)"
| takes: "wk_driver x = Draining \<Longrightarrow> try_recv wch (wk_chan x) = Inr (w, c) \<Longrightarrow>
     wake_step wch qc x (x\<lparr>wk_chan := c, wk_pending := push_chunk w (wk_pending x)\<rparr>)"
| drained: "wk_driver x = Draining \<Longrightarrow> try_recv wch (wk_chan x) = Inl e \<Longrightarrow>
     wake_step wch qc x (x\<lparr>wk_driver := Flushing\<rparr>)"
| flushes: "wk_driver x = Flushing \<Longrightarrow> hash_order ord \<Longrightarrow>
     retain_pending qc (ord (dom (wk_pending x))) (wk_pending x) (wk_conn x) = Some (p, q) \<Longrightarrow>
     wake_step wch qc x (x\<lparr>wk_driver := Waiting, wk_pending := p, wk_conn := q\<rparr>)"

inductive_cases wake_stepE: "wake_step wch qc x x'"

definition wake_initial :: "('wc, stream_writer) mpsc \<Rightarrow> ('wc, 'q) wake_state \<Rightarrow> bool" where
  "wake_initial wch x \<longleftrightarrow> wk_chan x = mpsc_channel wch WRITE_CHANNEL_CAPACITY \<and>
     \<not> wk_permit x \<and> wk_writer x = [] \<and> wk_driver x = Waiting \<and> wk_pending x = Map.empty"

subsection \<open>The operations are those of the code\<close>

text \<open>
  Without interference the steps of a call are \<open>send_chunk\<close>: the chunk is sent and the permit is
  there, or nothing has changed.
\<close>

lemma steps2: "r a b \<Longrightarrow> r b c \<Longrightarrow> c = d \<Longrightarrow> r\<^sup>*\<^sup>* a d"
  by (metis converse_rtranclp_into_rtranclp rtranclp.rtrancl_refl)

lemma steps3: "r a b \<Longrightarrow> r b c \<Longrightarrow> r c d \<Longrightarrow> d = e \<Longrightarrow> r\<^sup>*\<^sup>* a e"
  by (metis converse_rtranclp_into_rtranclp rtranclp.rtrancl_refl)

lemma call_is_send_chunk:
  assumes "wk_writer x = []" "wk_chan x = st_chans s tx"
  shows "case send_chunk wch tx n w label s of
      (Inr u, s') \<Rightarrow> (wake_step wch qc)\<^sup>*\<^sup>* x (x\<lparr>wk_chunk := w, wk_chan := st_chans s' tx, wk_permit := True\<rparr>)
    | (Inl e, s') \<Rightarrow> (wake_step wch qc)\<^sup>*\<^sup>* x (x\<lparr>wk_chunk := w\<rparr>)"
proof (cases rule: send_chunk_cases [of wch w s tx n label])
  case (sent c)
  let ?x1 = "x\<lparr>wk_writer := write_ops, wk_chunk := w\<rparr>"
  let ?x2 = "?x1\<lparr>wk_chan := c, wk_writer := [NotifyOne]\<rparr>"
  have "wake_step wch qc x ?x1" by (rule wake_step.call [OF assms(1)])
  moreover have "wake_step wch qc ?x1 ?x2"
    by (rule wake_step.sends) (use sent(1) assms(2) in \<open>simp_all add: write_ops_def\<close>)
  moreover have "wake_step wch qc ?x2 (?x2\<lparr>wk_permit := True, wk_writer := []\<rparr>)"
    by (rule wake_step.notifies) simp
  moreover have "?x2\<lparr>wk_permit := True, wk_writer := []\<rparr> = x\<lparr>wk_chunk := w, wk_chan := c, wk_permit := True\<rparr>"
    using assms(1) by (cases x) simp
  ultimately have "(wake_step wch qc)\<^sup>*\<^sup>* x (x\<lparr>wk_chunk := w, wk_chan := c, wk_permit := True\<rparr>)"
    by (rule steps3)
  with sent(2) show ?thesis by simp
next
  case (failed e)
  let ?x1 = "x\<lparr>wk_writer := write_ops, wk_chunk := w\<rparr>"
  have "wake_step wch qc x ?x1" by (rule wake_step.call [OF assms(1)])
  moreover have "wake_step wch qc ?x1 (?x1\<lparr>wk_writer := []\<rparr>)"
    by (rule wake_step.throws) (use failed(1) assms(2) in \<open>simp_all add: write_ops_def\<close>)
  moreover have "?x1\<lparr>wk_writer := []\<rparr> = x\<lparr>wk_chunk := w\<rparr>"
    using assms(1) by (cases x) simp
  ultimately have "(wake_step wch qc)\<^sup>*\<^sup>* x (x\<lparr>wk_chunk := w\<rparr>)"
    by (rule steps2)
  with failed(2) show ?thesis by simp
qed

text \<open>Without interference the steps of an awake driver are \<open>process_writes\<close>.\<close>

lemma drain_channel_steps:
  assumes "drain_channel wch p c = Some (p', c')" "wk_driver x = Draining" "wk_chan x = c" "wk_pending x = p"
  shows "(wake_step wch qc)\<^sup>*\<^sup>* x (x\<lparr>wk_chan := c', wk_pending := p', wk_driver := Flushing\<rparr>)"
proof -
  have "wch = wch \<longrightarrow> (\<forall>x. wk_driver x = Draining \<longrightarrow> wk_chan x = c \<longrightarrow> wk_pending x = p \<longrightarrow>
      (wake_step wch qc)\<^sup>*\<^sup>* x (x\<lparr>wk_chan := snd (p', c'), wk_pending := fst (p', c'),
         wk_driver := Flushing\<rparr>))"
  proof (rule drain_channel.raw_induct [where P = "\<lambda>w p c r. w = wch \<longrightarrow>
        (\<forall>x. wk_driver x = Draining \<longrightarrow> wk_chan x = c \<longrightarrow> wk_pending x = p \<longrightarrow>
        (wake_step wch qc)\<^sup>*\<^sup>* x (x\<lparr>wk_chan := snd r, wk_pending := fst r, wk_driver := Flushing\<rparr>))",
        OF _ assms(1)], intro impI allI)
    fix loop w p c r and x :: "('a, 'b) wake_state"
    assume IH: "\<And>w p c r. loop w p c = Some r \<Longrightarrow> w = wch \<longrightarrow>
          (\<forall>x. wk_driver x = Draining \<longrightarrow> wk_chan x = c \<longrightarrow> wk_pending x = p \<longrightarrow>
          (wake_step wch qc)\<^sup>*\<^sup>* x (x\<lparr>wk_chan := snd r, wk_pending := fst r, wk_driver := Flushing\<rparr>))"
      and r: "(case try_recv w c of
          Inl e \<Rightarrow> Some (p, c)
        | Inr ((i, data, fin), c1) \<Rightarrow>
            (let bytes = (case data of Some b \<Rightarrow> b | None \<Rightarrow> []);
                 queue = (case p i of Some q \<Rightarrow> q | None \<Rightarrow> [])
             in loop w (p(i \<mapsto> queue @ [(bytes, fin)])) c1)) = Some r"
      and x: "w = wch" "wk_driver x = Draining" "wk_chan x = c" "wk_pending x = p"
    show "(wake_step wch qc)\<^sup>*\<^sup>* x (x\<lparr>wk_chan := snd r, wk_pending := fst r, wk_driver := Flushing\<rparr>)"
    proof (cases "try_recv wch c")
      case (Inl e)
      have "wake_step wch qc x (x\<lparr>wk_driver := Flushing\<rparr>)"
        by (rule wake_step.drained) (use x Inl in simp_all)
      moreover have "r = (p, c)" using r Inl x(1) by simp
      ultimately show ?thesis using x by (cases x) auto
    next
      case (Inr m)
      obtain u c1 where m: "m = (u, c1)" by (cases m)
      let ?x = "x\<lparr>wk_chan := c1, wk_pending := push_chunk u p\<rparr>"
      have "wake_step wch qc x (x\<lparr>wk_chan := c1, wk_pending := push_chunk u (wk_pending x)\<rparr>)"
        by (rule wake_step.takes) (use x Inr m in simp_all)
      moreover have "loop wch (push_chunk u p) c1 = Some r"
        using r Inr m x(1) by (cases u) (simp add: push_chunk_def Let_def)
      then have "(wake_step wch qc)\<^sup>*\<^sup>* ?x (?x\<lparr>wk_chan := snd r, wk_pending := fst r, wk_driver := Flushing\<rparr>)"
        using IH [of wch "push_chunk u p" c1 r, THEN mp, OF _ refl, THEN spec, of ?x] x(2) by simp
      ultimately show ?thesis
        using x(4) by (simp add: converse_rtranclp_into_rtranclp)
    qed
  qed
  with assms(2-4) show ?thesis by simp
qed

lemma pass_is_process_writes:
  assumes "process_writes wch qc ord d c q = Some (d', c', q')" "hash_order ord"
    and "wk_driver x = Draining" "wk_chan x = c" "wk_pending x = drv_pending_writes d" "wk_conn x = q"
  shows "(wake_step wch qc)\<^sup>*\<^sup>* x
     (x\<lparr>wk_chan := c', wk_driver := Waiting, wk_pending := drv_pending_writes d', wk_conn := q'\<rparr>)"
proof -
  obtain p where p: "drain_channel wch (drv_pending_writes d) c = Some (p, c')"
    "retain_pending qc (ord (dom p)) p q = Some (drv_pending_writes d', q')"
    using assms(1) by (auto simp: process_writes_def bind_Some_iff split: prod.splits)
  let ?x = "x\<lparr>wk_chan := c', wk_pending := p, wk_driver := Flushing\<rparr>"
  let ?y = "?x\<lparr>wk_driver := Waiting, wk_pending := drv_pending_writes d', wk_conn := q'\<rparr>"
  have "wake_step wch qc ?x ?y"
    by (rule wake_step.flushes) (use p(2) assms(2,6) in simp_all)
  then have "(wake_step wch qc)\<^sup>*\<^sup>* x ?y"
    by (rule rtranclp.rtrancl_into_rtrancl [OF drain_channel_steps [OF p(1) assms(3-5)]])
  then show ?thesis by simp
qed

subsection \<open>The driver is awake while there is something to take\<close>

text \<open>
  A chunk in the channel is on its way to the driver: the call that sent it has still to notify, a
  permit waits, or the driver is awake and has not yet seen the channel empty.
\<close>

definition awake ::
  "('wc \<Rightarrow> stream_writer list) \<Rightarrow> ('wc \<Rightarrow> bool) \<Rightarrow> ('wc, 'q) wake_state \<Rightarrow> bool" where
  "awake items live x \<longleftrightarrow> live (wk_chan x) \<and>
     wk_writer x \<in> {[], [NotifyOne], [TrySend, NotifyOne]} \<and>
     (items (wk_chan x) = [] \<or> wk_writer x = [NotifyOne] \<or> wk_permit x \<or> wk_driver x = Draining)"

sublocale write_channel \<subseteq> awake: inductive_invariant "wake_initial wch" "wake_step wch qc"
    "awake items live" for qc :: "'q quic"
proof unfold_locales
  fix x :: "('wc, 'q) wake_state"
  assume "wake_initial wch x"
  then show "awake items live x"
    using channel [of WRITE_CHANNEL_CAPACITY]
    by (simp add: wake_initial_def awake_def WRITE_CHANNEL_CAPACITY_def)
next
  fix x x' :: "('wc, 'q) wake_state"
  assume inv: "awake items live x" and step: "wake_step wch qc x x'"
  from step show "awake items live x'"
  proof (cases rule: wake_step.cases)
    case (sends ops c)
    then show ?thesis
      using inv by (cases "wk_chunk x" "wk_chan x" rule: try_send_cases) (auto simp: awake_def)
  next
    case (drained e)
    have "live (wk_chan x)" using inv by (simp add: awake_def)
    then have "items (wk_chan x) = []"
      using drained(3) by (cases rule: try_recv_cases) auto
    with drained(1) inv show ?thesis by (auto simp: awake_def)
  next
    case (takes w c)
    have "live (wk_chan x)" using inv by (simp add: awake_def)
    then show ?thesis
      using takes inv by (cases rule: try_recv_cases) (auto simp: awake_def)
  qed (use inv in \<open>auto simp: awake_def write_ops_def wait_for_data_def\<close>)
qed

context write_channel
begin

lemma always_awake:
  "wake_initial wch x0 \<Longrightarrow> (wake_step wch qc)\<^sup>*\<^sup>* x0 x \<Longrightarrow> awake items live x"
  by (rule awake.inv_rtranclp)

end

subsection \<open>Properties\<close>

text \<open>C7: No wake-up is lost. However the operations of PHP's \<open>write\<close> and \<open>close\<close> and those of the
  driver interleave: when the driver sleeps, no call is in progress and a chunk is in the write
  channel, the driver is notified and \<open>wait_for_data\<close> returns; and then the driver alone moves
  every chunk of the channel into the queues of their streams, in order. This rests on the order
  in which \<open>write\<close> sends and notifies, and on the driver emptying the channel before it sleeps.\<close>

theorem no_wake_up_is_lost:
  assumes "mpsc_fifo wch items room live" "wake_initial wch x0" "(wake_step wch qc)\<^sup>*\<^sup>* x0 x"
    and "wk_driver x = Waiting" "wk_writer x = []" "items (wk_chan x) \<noteq> []"
  shows "wait_for_data (wk_permit x) = Some () \<and>
     (\<exists>x'. (wake_step wch qc)\<^sup>*\<^sup>* x x' \<and> wk_driver x' = Flushing \<and> items (wk_chan x') = [] \<and>
        (\<forall>i. queue_of (wk_pending x') i = queue_of (wk_pending x) i @ chunks_for i (items (wk_chan x))))"
proof -
  note wc = write_channel.intro [OF assms(1)]
  have inv: "awake items live x"
    by (rule write_channel.always_awake [OF wc assms(2,3)])
  then have live: "live (wk_chan x)" and permit: "wk_permit x"
    using assms(4-6) by (auto simp: awake_def)
  let ?x = "x\<lparr>wk_permit := False, wk_driver := Draining\<rparr>"
  have ret: "wait_for_data (wk_permit x) = Some ()"
    using permit by (simp add: wait_for_data_def)
  obtain p' c' where drain: "drain_channel wch (wk_pending x) (wk_chan x) = Some (p', c')" "items c' = []"
    "\<forall>i. queue_of p' i = queue_of (wk_pending x) i @ chunks_for i (items (wk_chan x))"
    using write_channel.drain_channel_ends [OF wc live] by blast
  have "(wake_step wch qc)\<^sup>*\<^sup>* ?x (?x\<lparr>wk_chan := c', wk_pending := p', wk_driver := Flushing\<rparr>)"
    by (rule drain_channel_steps [OF drain(1)]) simp_all
  then have "(wake_step wch qc)\<^sup>*\<^sup>* x (?x\<lparr>wk_chan := c', wk_pending := p', wk_driver := Flushing\<rparr>)"
    by (rule converse_rtranclp_into_rtranclp [where r = "wake_step wch qc" and b = ?x, rotated])
      (rule wake_step.wakes [OF assms(4) ret])
  then show ?thesis
    using ret drain(2,3) by fastforce
qed

text \<open>
  A run that is close to losing the wake-up: the driver, woken by a packet, sees the channel empty
  just before the chunk is sent, and sleeps again before \<open>write\<close> notifies.
\<close>

definition wake_start :: "(stream_writer fifo, ref_conn) wake_state" where
  "wake_start =
     \<lparr>wk_chan = mpsc_channel fifo_mpsc WRITE_CHANNEL_CAPACITY, wk_permit = False, wk_writer = [],
      wk_chunk = (0, None, False), wk_driver = Waiting, wk_pending = Map.empty,
      wk_conn = example_window\<rparr>"

lemma close_call:
  obtains x :: "(stream_writer fifo, ref_conn) wake_state"
  where "(wake_step fifo_mpsc ref_quic)\<^sup>*\<^sup>* wake_start x" "wk_driver x = Waiting" "wk_writer x = []"
    "fifo_items (wk_chan x) = [(4, Some [1], False)]" "wk_pending x = Map.empty"
proof -
  let ?w = "(4, Some [1], False) :: stream_writer"
  let ?c = "\<lparr>fifo_items = [?w], fifo_room = 255, fifo_live = True\<rparr>"
  define x1 where "x1 = wake_start\<lparr>wk_writer := write_ops, wk_chunk := ?w\<rparr>"
  define x2 where "x2 = x1\<lparr>wk_driver := Draining, wk_conn := example_window\<rparr>"
  define x3 where "x3 = x2\<lparr>wk_driver := Flushing\<rparr>"
  define x4 where "x4 = x3\<lparr>wk_chan := ?c, wk_writer := [NotifyOne]\<rparr>"
  define x5 where "x5 = x4\<lparr>wk_driver := Waiting, wk_pending := Map.empty, wk_conn := example_window\<rparr>"
  define x6 where "x6 = x5\<lparr>wk_permit := True, wk_writer := []\<rparr>"
  note defs = x1_def x2_def x3_def x4_def x5_def x6_def wake_start_def write_ops_def
  have "wake_step fifo_mpsc ref_quic wake_start x1"
    unfolding x1_def by (rule wake_step.call) (simp add: wake_start_def)
  moreover have "wake_step fifo_mpsc ref_quic x1 x2"
    unfolding x2_def by (rule wake_step.disturbed) (simp add: defs)
  moreover have "wake_step fifo_mpsc ref_quic x2 x3"
    unfolding x3_def by (rule wake_step.drained) (simp_all add: defs fifo_simps)
  moreover have "wake_step fifo_mpsc ref_quic x3 x4"
    unfolding x4_def by (rule wake_step.sends) (simp_all add: defs fifo_simps WRITE_CHANNEL_CAPACITY_def)
  moreover have "wake_step fifo_mpsc ref_quic x4 x5"
    unfolding x5_def by (rule wake_step.flushes [OF _ hash_order_sorted]) (simp_all add: defs)
  moreover have "wake_step fifo_mpsc ref_quic x5 x6"
    unfolding x6_def by (rule wake_step.notifies) (simp add: defs)
  ultimately have "(wake_step fifo_mpsc ref_quic)\<^sup>*\<^sup>* wake_start x6"
    by (meson converse_rtranclp_into_rtranclp rtranclp.rtrancl_refl)
  then show thesis by (rule that) (simp_all add: defs)
qed

theorem no_wake_up_is_lost_witness:
  "\<exists>x :: (stream_writer fifo, ref_conn) wake_state.
     (wake_step fifo_mpsc ref_quic)\<^sup>*\<^sup>* wake_start x \<and> wait_for_data (wk_permit x) = Some () \<and>
     (\<exists>x'. (wake_step fifo_mpsc ref_quic)\<^sup>*\<^sup>* x x' \<and> queue_of (wk_pending x') 4 = [([1], False)])"
proof (rule close_call)
  fix x :: "(stream_writer fifo, ref_conn) wake_state"
  assume x: "(wake_step fifo_mpsc ref_quic)\<^sup>*\<^sup>* wake_start x" "wk_driver x = Waiting" "wk_writer x = []"
    "fifo_items (wk_chan x) = [(4, Some [1], False)]" "wk_pending x = Map.empty"
  have "wake_initial fifo_mpsc wake_start" by (simp add: wake_initial_def wake_start_def)
  from no_wake_up_is_lost [OF fifo.mpsc_fifo_axioms this x(1-3)] x(1,4,5) show ?thesis
    by (intro exI [of _ x]) fastforce
qed

end
