(* ===== verification/Progress.thy ===== *)
theory Progress
  imports Write_Path
begin

text \<open>
  How far the write path gets. A peer that keeps opening its windows gets everything PHP wrote,
  within a number of passes of \<open>process_writes\<close> that is bounded by the bytes that wait. A peer that
  does not read holds up nobody but the driver: its queue of pending writes grows with every call,
  because each pass empties the write channel, whose 256 places therefore never stop PHP.
\<close>

subsection \<open>Send capacity\<close>

text \<open>
  \<open>room q s\<close> is what quiche documents as \<open>stream_capacity\<close>: \<open>stream_send\<close> accepts as much as
  fits, answers \<open>Done\<close> only if there is no capacity, and a byte that is accepted on one stream
  costs any stream at most a byte of capacity, since the streams share the connection's window.
\<close>

locale quic_capacity = quic_open_sender +
  fixes room :: "'a \<Rightarrow> u64 \<Rightarrow> nat"
  assumes room_Ok: "stream_send qc s b fin q = (Inr n, q') \<Longrightarrow>
        n = min (length b) (room q s) \<and> room q j \<le> room q' j + n"
    and room_Done: "stream_send qc s b fin q = (Inl QDone, q') \<Longrightarrow> room q s = 0"
    and room_Err: "stream_send qc s b fin q = (Inl e, q') \<Longrightarrow> room q j \<le> room q' j"
begin

abbreviation size_of :: "(bytes \<times> bool) list \<Rightarrow> nat" where
  "size_of qu \<equiv> length (queue_bytes qu)"

lemma flush_stream_progress:
  assumes "flush_stream qc i qu q = Some ((keep, qu'), q')"
  shows "room q j + size_of qu' \<le> room q' j + size_of qu \<and> size_of qu' \<le> size_of qu \<and>
     (0 < room q i \<and> 0 < size_of qu \<longrightarrow> size_of qu' < size_of qu) \<and>
     (0 < room q i \<and> size_of qu = 0 \<longrightarrow> qu' = [])"
  using assms
proof (induction qu arbitrary: q)
  case Nil
  then show ?case by simp
next
  case (Cons chunk rest)
  obtain b fin where chunk: "chunk = (b, fin)" by force
  obtain r q1 where send: "stream_send qc i b fin q = (r, q1)" by force
  show ?case
  proof (cases r)
    case (Inl e)
    with send have "room q i \<le> room q1 i" "room q j \<le> room q1 j"
      using room_Err by blast+
    then show ?thesis
      using Cons.IH [of q1] Cons.prems send Inl chunk room_Done [of i b fin q q1] by (cases e) auto
  next
    case (Inr n)
    with send have "n = min (length b) (room q i)" "room q i \<le> room q1 i + n" "room q j \<le> room q1 j + n"
      using room_Ok by blast+
    moreover have "n = length b \<or> n < length b \<and> qu' = (drop n b, fin) # rest \<and> q' = q1"
      using Cons.prems send Inr chunk by (auto split: if_splits)
    ultimately show ?thesis
      using Cons.IH [of q1] Cons.prems send Inr chunk by (cases b) auto
  qed
qed

text \<open>The bytes that wait for the streams \<open>ks\<close>.\<close>

abbreviation load :: "u64 list \<Rightarrow> (u64 \<rightharpoonup> (bytes \<times> bool) list) \<Rightarrow> nat" where
  "load ks m \<equiv> (\<Sum>k\<leftarrow>ks. size_of (queue_of m k))"

lemma load_cong: "(\<And>k. k \<in> set ks \<Longrightarrow> queue_of m k = queue_of m' k) \<Longrightarrow> load ks m = load ks m'"
  by (induction ks) auto

text \<open>No queue grows, and with capacity on every stream \<open>retain\<close> makes progress.\<close>

lemma retain_pending_shrinks:
  assumes "distinct ks" "retain_pending qc ks m q = Some (m', q')"
  shows "size_of (queue_of m' k) \<le> size_of (queue_of m k)"
proof -
  have ends: "k \<notin> set ks \<longrightarrow> m' k = m k" "dom m' \<subseteq> dom m"
    "\<forall>k \<in> set ks. \<forall>qu. m k = Some qu \<longrightarrow> attempted qc k qu (m' k)"
    using retain_pending_ends [OF assms(1), of m q] assms(2) by auto
  show ?thesis
  proof (cases "k \<in> set ks \<and> m k \<noteq> None")
    case True
    then obtain qu where qu: "m k = Some qu" by blast
    with True ends(3) have "attempted qc k qu (m' k)" by blast
    then show ?thesis
      using flush_stream_progress qu
      by (force simp: attempted_def queue_of_def)
  next
    case False
    then have "m' k = m k" using ends(1,2) by auto
    then show ?thesis by (simp add: queue_of_def)
  qed
qed

lemma retain_pending_progress:
  assumes "distinct ks" "retain_pending qc ks m q = Some (m', q')" "\<forall>k \<in> set ks. 0 < room q k"
  shows "if load ks m = 0 then \<forall>k \<in> set ks. queue_of m' k = [] else load ks m' < load ks m"
  using assms
proof (induction ks arbitrary: m q)
  case Nil
  then show ?case by simp
next
  case (Cons k ks)
  have below: "load ks m' \<le> load ks m"
    by (intro sum_list_mono retain_pending_shrinks [OF Cons.prems(1,2)])
  show ?case
  proof (cases "m k")
    case None
    then have rest: "retain_pending qc ks m q = Some (m', q')" using Cons.prems(2) by simp
    have "m' k = None"
      using retain_pending_ends [of ks m q] rest None Cons.prems(1) by auto
    with None show ?thesis
      using Cons.IH [OF _ rest] Cons.prems(1,3) by simp
  next
    case (Some qu)
    obtain keep qu' q1 where fl: "flush_stream qc k qu q = Some ((keep, qu'), q1)"
      "keep \<longleftrightarrow> qu' \<noteq> []"
      using flush_stream_ends by blast
    let ?m = "m(k := (if keep then Some qu' else None))"
    have rest: "retain_pending qc ks ?m q1 = Some (m', q')"
      using Cons.prems(2) Some fl by simp
    have "m' k = ?m k"
      using retain_pending_ends [of ks ?m q1] rest Cons.prems(1) by auto
    then have k: "queue_of m' k = qu'" "queue_of m k = qu"
      using fl(2) Some by (auto simp: queue_of_def)
    note head = flush_stream_progress [OF fl(1)]
    show ?thesis
    proof (cases "size_of qu = 0")
      case False
      then have "size_of qu' < size_of qu" using head Cons.prems(3) by simp
      with k below show ?thesis by auto
    next
      case True
      then have "qu' = []" and le: "room q j \<le> room q1 j" for j
        using head [of j] Cons.prems(3) by auto
      have "distinct ks" "\<forall>j \<in> set ks. 0 < room q1 j"
        using Cons.prems(1,3) le by (auto intro: less_le_trans)
      then have ih: "if load ks ?m = 0 then \<forall>k \<in> set ks. queue_of m' k = []
          else load ks m' < load ks ?m"
        by (rule Cons.IH [OF _ rest])
      have eq: "load ks ?m = load ks m"
        using Cons.prems(1) by (intro load_cong) (auto simp: queue_of_def)
      have eqs: "load (k # ks) m = load ks m" "load (k # ks) m' = load ks m'"
        using k True \<open>qu' = []\<close> by simp_all
      show ?thesis
        using ih [unfolded eq] k(1) \<open>qu' = []\<close> unfolding eqs by simp
    qed
  qed
qed

end

definition rounds :: "(('q \<Rightarrow> 'q) \<times> (u64 set \<Rightarrow> u64 list)) list \<Rightarrow> 'q pipe_step list" where
  "rounds rs = concat (map (\<lambda>(f, ord). [Net f, Flush ord]) rs)"

lemma rounds_simps [simp]:
  "rounds [] = []" "rounds ((f, ord) # rs) = Net f # Flush ord # rounds rs"
  by (simp_all add: rounds_def)

text \<open>One pass of \<open>process_writes\<close>, with the bytes that wait counted over any finite set of streams.\<close>

locale write_progress = wr: write_channel wch items room live +
  cp: quic_capacity qc accepted finished writable capacity
  for wch :: "('wc, stream_writer) mpsc" and items room live
    and qc :: "'q quic" and accepted finished writable and capacity :: "'q \<Rightarrow> u64 \<Rightarrow> nat"
begin

sublocale env: write_env wch items room live qc accepted finished writable ..

lemma environment: "write_env wch items room live qc accepted finished writable"
  by (rule env.write_env_axioms)

lemma process_writes_progress:
  assumes "live c" "finite (dom (drv_pending_writes d))" "hash_order ord"
    and "process_writes wch qc ord d c q = Some (d', c', q')" "\<forall>k. 0 < capacity q k"
    and "finite S" "\<forall>k. k \<notin> S \<longrightarrow> queue_of (drv_pending_writes d) k @ chunks_for k (items c) = []"
    and "n = (\<Sum>k\<in>S. length (queue_bytes (queue_of (drv_pending_writes d) k @ chunks_for k (items c))))"
  shows "(\<forall>k. k \<notin> S \<longrightarrow> queue_of (drv_pending_writes d') k = []) \<and>
     (if n = 0 then \<forall>k. queue_of (drv_pending_writes d') k = []
      else (\<Sum>k\<in>S. length (queue_bytes (queue_of (drv_pending_writes d') k))) < n)"
proof -
  obtain p c1 where drain: "drain_channel wch (drv_pending_writes d) c = Some (p, c1)"
    "\<forall>i. queue_of p i = queue_of (drv_pending_writes d) i @ chunks_for i (items c)" "finite (dom p)"
    using wr.drain_channel_ends [OF assms(1)] assms(2) by blast
  have ks: "distinct (ord (dom p))" "set (ord (dom p)) = dom p"
    using hash_orderD [OF assms(3) drain(3)] by auto
  define m' where "m' = drv_pending_writes d'"
  have ret: "retain_pending qc (ord (dom p)) p q = Some (m', q')"
    using assms(4) drain(1)
    by (auto simp: process_writes_def m'_def split: Option.bind_splits)
  have out: "k \<notin> S \<longrightarrow> queue_of p k = [] \<and> queue_of m' k = []" for k
    using assms(7) drain(2) cp.retain_pending_idle [OF ret, of k] by simp
  have gone: "k \<notin> dom p \<longrightarrow> queue_of p k = [] \<and> queue_of m' k = []" for k
    using cp.retain_pending_idle [OF ret, of k] by (auto simp: queue_of_def)
  have sums: "cp.load (ord (dom p)) m = (\<Sum>k\<in>S. length (queue_bytes (queue_of m k)))"
    if "\<forall>k. k \<notin> S \<or> k \<notin> dom p \<longrightarrow> queue_of m k = []" for m
    using that ks drain(3) assms(6)
    by (subst sum_list_distinct_conv_sum_set) (auto intro!: sum.mono_neutral_cong)
  have zero: "\<forall>k. k \<notin> S \<or> k \<notin> dom p \<longrightarrow> queue_of p k = []"
    "\<forall>k. k \<notin> S \<or> k \<notin> dom p \<longrightarrow> queue_of m' k = []"
    using out gone by blast+
  have "cp.load (ord (dom p)) p = n" "cp.load (ord (dom p)) m' =
      (\<Sum>k\<in>S. length (queue_bytes (queue_of m' k)))"
    using sums [OF zero(1)] sums [OF zero(2)] assms(8) drain(2) by simp_all
  then show ?thesis
    using cp.retain_pending_progress [OF ks(1) ret] assms(5) out gone ks(2)
    unfolding m'_def by (metis (no_types, lifting))
qed

text \<open>
  Rounds: the network changes the connection, then the driver makes a pass. After more rounds than
  bytes waited nothing waits.
\<close>

lemma rounds_drain:
  assumes "live (st_chans s (drv_stream_event_recv d))" "finite (dom (drv_pending_writes d))"
    and "\<forall>(f, ord) \<in> set rs. hash_order ord \<and> (\<forall>q k. 0 < capacity (f q) k)"
    and "finite S" "\<forall>k. k \<notin> S \<longrightarrow> waiting items s d k = []"
    and "(\<Sum>k\<in>S. length (queue_bytes (waiting items s d k))) < length rs \<or>
      (\<forall>k. waiting items s d k = [])"
    and "pipe_run wch pe qc (rounds rs) s d q = Some (log, s', d', q')"
  shows "log = [] \<and> (\<forall>k. waiting items s' d' k = [])"
  using assms(1-3,5-)
proof (induction rs arbitrary: s d q)
  case Nil
  then show ?case by auto
next
  case (Cons r rs)
  let ?tx = "drv_stream_event_recv d"
  let ?n = "\<Sum>k\<in>S. length (queue_bytes (waiting items s d k))"
  obtain f ord where r: "r = (f, ord)" by force
  then have ord: "hash_order ord" and cap: "\<forall>k. 0 < capacity (f q) k" using Cons.prems(3) by auto
  obtain d1 c1 q1 where fl: "process_writes wch qc ord d (st_chans s ?tx) (f q) = Some (d1, c1, q1)"
    "live c1" "items c1 = []" "finite (dom (drv_pending_writes d1))"
    "d1 = d\<lparr>drv_pending_writes := drv_pending_writes d1\<rparr>"
    by (rule flush_step [OF env.write_env_axioms Cons.prems(1,2) ord])
  let ?s = "s\<lparr>st_chans := (st_chans s)(?tx := c1)\<rparr>"
  have recv: "drv_stream_event_recv d1 = ?tx" by (subst fl(5)) simp
  then have w1: "waiting items ?s d1 k = queue_of (drv_pending_writes d1) k" for k
    using fl(3) by (simp add: waiting_def)
  have pass: "(\<forall>k. k \<notin> S \<longrightarrow> waiting items ?s d1 k = []) \<and>
      (if ?n = 0 then \<forall>k. waiting items ?s d1 k = []
       else (\<Sum>k\<in>S. length (queue_bytes (waiting items ?s d1 k))) < ?n)"
    unfolding w1
    by (rule process_writes_progress [OF Cons.prems(1,2) ord fl(1) cap assms(4)])
      (use Cons.prems(4) in \<open>simp_all add: waiting_def\<close>)
  have run: "pipe_run wch pe qc (rounds rs) ?s d1 q1 = Some (log, s', d', q')"
    using Cons.prems(6) fl(1) r by simp
  show ?case
  proof (rule Cons.IH [OF _ fl(4) _ _ _ run])
    show "live (st_chans ?s (drv_stream_event_recv d1))" using fl(2) recv by simp
    show "(\<Sum>k\<in>S. length (queue_bytes (waiting items ?s d1 k))) < length rs \<or>
        (\<forall>k. waiting items ?s d1 k = [])"
      using pass Cons.prems(5) by (cases "?n = 0") auto
  qed (use Cons.prems(3) pass in auto)
qed

end

interpretation ref_progress: write_progress fifo_mpsc fifo_items fifo_room fifo_live
    ref_quic rc_accepted rc_finished rc_writable rc_window
  by unfold_locales (auto simp: ref_quic_simps split: if_splits)

text \<open>C4: What was written is sent, all of it, to a peer that keeps opening its windows. If the
  network leaves some capacity for every stream before each pass of \<open>process_writes\<close>, then after
  more passes than bytes waited nothing waits any more, on any stream, in the driver or in the
  write channel; and on a stream that was writable and on which nothing was written after a FIN
  the connection accepted exactly the bytes that had waited, in their order, and the FIN if there
  was one. Streams that answer errors do not disturb this.\<close>

theorem waiting_bytes_are_sent:
  assumes "write_progress wch items room live qc accepted finished writable capacity"
    and "live (st_chans s (drv_stream_event_recv d))" "finite (dom (drv_pending_writes d))"
    and "\<forall>(f, ord) \<in> set rs. hash_order ord \<and> (\<forall>q k. 0 < capacity (f q) k)"
    and "finite S" "\<forall>k. k \<notin> S \<longrightarrow> waiting items s d k = []"
    and "(\<Sum>k\<in>S. length (queue_bytes (waiting items s d k))) < length rs"
    and "list_all (step_ok pe accepted finished writable i) (rounds rs)"
    and "writable q i" "fin_last (waiting items s d i)"
  shows "\<exists>s' d' q'. pipe_run wch pe qc (rounds rs) s d q = Some ([], s', d', q') \<and>
     (\<forall>k. waiting items s' d' k = []) \<and>
     accepted q' i = accepted q i @ queue_bytes (waiting items s d i) \<and>
     (finished q' i \<longleftrightarrow> finished q i \<or> has_fin (waiting items s d i))"
proof -
  note env = write_progress.environment [OF assms(1)]
  obtain log s' d' q' where run: "pipe_run wch pe qc (rounds rs) s d q = Some (log, s', d', q')"
    "refines accepted finished writable i (q, waiting items s d i)
       (written_in (drv_stream_event_recv d) i log) (q', waiting items s' d' i)"
    using pipe_run_refines [OF env assms(2,3,8)] by blast
  have "log = [] \<and> (\<forall>k. waiting items s' d' k = [])"
    by (rule write_progress.rounds_drain [OF assms(1-6) disjI1 [OF assms(7)] run(1)])
  with run assms(9,10) show ?thesis by auto
qed

theorem waiting_bytes_are_sent_witness:
  "\<exists>s' d' q'. pipe_run fifo_mpsc (example_engine :: stream_writer fifo php_engine) ref_quic
       (rounds (replicate 4 (\<lambda>q. q\<lparr>rc_window := (\<lambda>_. 1)\<rparr>, sorted_list_of_set)))
       (example_store\<lparr>st_chans := (\<lambda>_. example_queue)\<rparr>) example_writer example_window =
     Some ([], s', d', q') \<and> (\<forall>k. waiting fifo_items s' d' k = []) \<and>
     rc_accepted q' 0 = [1, 2, 3] \<and> rc_finished q' 0"
proof -
  let ?s = "example_store\<lparr>st_chans := (\<lambda>_. example_queue)\<rparr>"
  let ?rs = "replicate 4 (\<lambda>q. q\<lparr>rc_window := (\<lambda>_. 1)\<rparr>, sorted_list_of_set)"
  note f = example_writer_facts
  have w: "waiting fifo_items ?s example_writer k =
      queue_of (drv_pending_writes example_writer) k @ chunks_for k (fifo_items example_queue)" for k
    by (simp add: waiting_def)
  have "\<forall>k. k \<notin> {0, 4} \<longrightarrow> waiting fifo_items ?s example_writer k = []"
    unfolding w by (auto simp: example_queue_def example_writer_def queue_of_def)
  moreover have "(\<Sum>k\<in>{0, 4}. length (queue_bytes (waiting fifo_items ?s example_writer k))) < length ?rs"
    unfolding w by (simp add: f(3,4) del: queue_bytes_simps(3))
  moreover have "list_all (step_ok (example_engine :: stream_writer fifo php_engine) rc_accepted
      rc_finished rc_writable 0) (rounds ?rs)"
    by (simp add: eval_nat_numeral hash_order_sorted rc_writable_def)
  moreover have "\<forall>(f, ord) \<in> set ?rs. hash_order ord \<and> (\<forall>q k. 0 < rc_window (f q) k)"
    by (simp add: hash_order_sorted)
  ultimately show ?thesis
    using waiting_bytes_are_sent [OF ref_progress.write_progress_axioms _ f(2), of ?s ?rs "{0, 4}"
        example_engine 0 example_window] f w by simp
qed

end
