(* ===== verification/Stalled.thy ===== *)
theory Stalled
  imports Progress Channel_Bounds
begin

text \<open>
  A peer that does not read. The write channel of a connection has 256 places, but every pass of
  \<open>process_writes\<close> empties it into \<open>pending_writes\<close>, which has no bound: \<open>write\<close> goes on succeeding
  and the driver's queue grows.
\<close>

definition stalled :: "'q quic \<Rightarrow> u64 \<Rightarrow> bool" where
  "stalled qc i \<longleftrightarrow> (\<forall>b fin q. b \<noteq> [] \<longrightarrow> fst (stream_send qc i b fin q) = Inl QDone)"

lemma flush_stream_stalled:
  assumes "stalled qc i" "b \<noteq> []"
  shows "\<exists>q'. flush_stream qc i ((b, fin) # qu) q = Some ((True, (b, fin) # qu), q')"
proof -
  obtain q' where "stream_send qc i b fin q = (Inl QDone, q')"
    using assms by (metis prod.collapse stalled_def)
  then show ?thesis by simp
qed

lemma stalled_queue_waits:
  assumes "write_env wch items room live qc accepted finished writable" "stalled qc i"
    and "live (st_chans s (drv_stream_event_recv d))" "finite (dom (drv_pending_writes d))"
    and "hash_order ord" "waiting items s d i = (b, fin) # qu" "b \<noteq> []"
    and "process_writes wch qc ord d (st_chans s (drv_stream_event_recv d)) q = Some (d', c', q')"
  shows "queue_of (drv_pending_writes d') i = (b, fin) # qu"
proof -
  note env = write_channel.axioms(1) [OF write_env.axioms(1) [OF assms(1)]]
    quic_open_sender.axioms(1) [OF write_env.axioms(2) [OF assms(1)]]
  have "attempted qc i ((b, fin) # qu) (drv_pending_writes d' i)"
    using process_writes_attempted [OF env assms(3-5) assms(6) [unfolded waiting_def] _ assms(8)]
    by simp
  then obtain qa keep qu' qb where
    "flush_stream qc i ((b, fin) # qu) qa = Some ((keep, qu'), qb)"
    "drv_pending_writes d' i = (if keep then Some qu' else None)"
    unfolding attempted_def by blast
  with flush_stream_stalled [OF assms(2,7), of fin qu qa] show ?thesis
    by (auto simp: queue_of_def simp del: flush_stream.simps)
qed

text \<open>C22: Nothing pushes back on PHP. While the peer leaves no window on a stream, every \<open>write\<close> of a
  non-empty chunk that is followed by a pass of the driver succeeds, without end: after \<open>n\<close> of
  them all \<open>n\<close> returned normally and the driver holds \<open>n\<close> chunks more for the stream, although the
  write channel has a capacity of 256.\<close>

theorem stalled_peer_grows_the_queue:
  assumes "write_env wch items room live qc accepted finished writable" "stalled qc i"
    and "write_end obj = Some (drv_stream_event_recv d, nt, i)"
    and "filled items room live WRITE_CHANNEL_CAPACITY (st_chans s (drv_stream_event_recv d))"
    and "items (st_chans s (drv_stream_event_recv d)) = []" "finite (dom (drv_pending_writes d))"
    and "hash_order ord" "b \<noteq> []" "queue_of (drv_pending_writes d) i = replicate k (b, False)"
  shows "\<exists>s' d' q'. pipe_run wch pe qc
       (concat (replicate n [PhpOp held (Write obj b False), Flush ord])) s d q =
     Some (replicate n (Write obj b False, PhpUnit), s', d', q') \<and>
     queue_of (drv_pending_writes d') i = replicate (k + n) (b, False)"
  using assms(3-6,9)
proof (induction n arbitrary: s d q k)
  case 0
  then show ?case by simp
next
  case (Suc n)
  let ?tx = "drv_stream_event_recv d"
  note fifo = write_channel.axioms(1) [OF write_env.axioms(1) [OF assms(1)]]
  have "live (st_chans s ?tx)" "0 < room (st_chans s ?tx)"
    using Suc.prems(2,3) by (auto simp: filled_def WRITE_CHANNEL_CAPACITY_def)
  then obtain c where c: "try_send wch (i, Some b, False) (st_chans s ?tx) = Inr c"
    "items c = [(i, Some b, False)]" "live c"
    using mpsc_fifo.try_send_ok [OF fifo] Suc.prems(3) by fastforce
  define s1 where "s1 = emit (Notified nt) (s\<lparr>st_chans := (st_chans s)(?tx := c)\<rparr>)"
  have call: "php_call wch pe (Write obj b False) held s = Some (PhpUnit, s1)"
    using c(1) by (simp add: php_call_write [OF Suc.prems(1)] send_chunk_def s1_def del: php_call.simps)
  have s1: "st_chans s1 ?tx = c" "live (st_chans s1 ?tx)"
    "waiting items s1 d i = replicate (Suc k) (b, False)"
    using c Suc.prems(5) by (simp_all add: s1_def waiting_def replicate_append_same)
  obtain d1 c1 q1 where fl: "process_writes wch qc ord d (st_chans s1 ?tx) q = Some (d1, c1, q1)"
    "items c1 = []" "finite (dom (drv_pending_writes d1))"
    "d1 = d\<lparr>drv_pending_writes := drv_pending_writes d1\<rparr>"
    by (rule flush_step [OF assms(1) s1(2) Suc.prems(4) assms(7)])
  let ?s = "s1\<lparr>st_chans := (st_chans s1)(?tx := c1)\<rparr>"
  have recv: "drv_stream_event_recv d1 = ?tx" by (subst fl(4)) simp
  have "filled items room live WRITE_CHANNEL_CAPACITY c1"
    using process_writes_filled [OF fifo fl(1)] s1(1)
      mpsc_fifo.filled_try_send [OF fifo c(1) Suc.prems(2)] by simp
  moreover have "queue_of (drv_pending_writes d1) i = replicate (Suc k) (b, False)"
    using stalled_queue_waits [OF assms(1,2) s1(2) Suc.prems(4) assms(7) _ assms(8) fl(1),
        where fin = False and qu = "replicate k (b, False)"] s1(3) by simp
  ultimately obtain s' d' q' where rest: "pipe_run wch pe qc
       (concat (replicate n [PhpOp held (Write obj b False), Flush ord])) ?s d1 q1 =
     Some (replicate n (Write obj b False, PhpUnit), s', d', q')"
     "queue_of (drv_pending_writes d') i = replicate (Suc k + n) (b, False)"
    using Suc.IH [of d1 ?s "Suc k" q1] Suc.prems(1) recv fl(2,3) by auto
  show ?case
    using call fl(1) rest by (intro exI [of _ s'] exI [of _ d'] exI [of _ q'])
      (simp del: php_call.simps)
qed

text \<open>A connection whose peer opened no window.\<close>

definition shut_quic :: "ref_conn quic" where
  "shut_quic = ref_quic\<lparr>stream_send := (\<lambda>s b fin q. (Inl QDone, q))\<rparr>"

interpretation shut: write_env fifo_mpsc fifo_items fifo_room fifo_live
    shut_quic rc_accepted rc_finished rc_writable
  by unfold_locales (auto simp: shut_quic_def)

theorem stalled_peer_grows_the_queue_witness:
  "\<exists>s' d' q'. pipe_run fifo_mpsc example_engine shut_quic
       (concat (replicate 1000 [PhpOp {} (Write example_incoming [1, 2, 3] False),
          Flush sorted_list_of_set]))
       (example_store\<lparr>st_chans := (\<lambda>_. mpsc_channel fifo_mpsc WRITE_CHANNEL_CAPACITY)\<rparr>) example_writer example_window =
     Some (replicate 1000 (Write example_incoming [1, 2, 3] False, PhpUnit), s', d', q') \<and>
     queue_of (drv_pending_writes d') 4 = replicate (0 + 1000) ([1, 2, 3], False)"
  by (rule stalled_peer_grows_the_queue [OF shut.write_env_axioms])
    (simp_all add: stalled_def shut_quic_def example_incoming_def example_writer_def
      example_store_def filled_def fifo_mpsc_def hash_order_sorted WRITE_CHANNEL_CAPACITY_def
      queue_of_def)

end
