(* ===== verification/Close_Race.thy ===== *)
theory Close_Race
  imports Lost_Closes Channel_Bounds
begin

text \<open>
  A race in the \<open>select!\<close> of the server loop. The event channel is polled before the close channel,
  so that a close is handled after the data; but a driver may send into both between the two polls.
  Then the close is taken first, the record is dropped, and the data that is queued behind it is
  thrown away.
\<close>

subsection \<open>A record that is gone\<close>

definition gone :: "u64 \<Rightarrow> ('wc, 'ec, 'cc, 'q) system \<Rightarrow> bool" where
  "gone cid sy \<longleftrightarrow> unat cid < sy_accepted sy \<and>
     (sy_accepted sy \<le> 2 ^ 64 \<longrightarrow> sv_connections (sy_server sy) cid = None)"

lemma gone_step:
  assumes "linked sy" "gone cid sy" "sys_step wch ech cch pe qc sy sy'"
  shows "gone cid sy'"
  using assms(3)
proof (cases rule: sys_step_cases)
  case (accept peer sv drv s q)
  then have "sv_connections sv j = sv_connections (sy_server sy) j"
    if "j \<noteq> sv_id_counter (sy_server sy)" for j
    using that by (auto simp: accept_connection_def Let_def split: prod.splits)
  then show ?thesis
    using accept(1) assms(2) linked_counter [OF assms(1)] by (auto simp: gone_def)
next
  case (closed cid' flag c ord sv s)
  then show ?thesis
    using assms(2) conn_closed_frame [OF closed(4)] by (auto simp: gone_def map_le_def dom_def)
next
  case (close mord cord sv s)
  then show ?thesis
    using assms(2) server_close_frame [OF close(3)] by (auto simp: gone_def map_le_def dom_def)
qed (use assms(2) in \<open>simp_all add: gone_def\<close>)

lemma gone_forever:
  assumes "(sys_step wch ech cch pe qc)\<^sup>*\<^sup>* sy sy'" "linked sy" "gone cid sy"
  shows "gone cid sy'"
proof -
  have "linked sy' \<and> gone cid sy'"
    using assms by (induction rule: rtranclp_induct) (blast intro: links.inv_step gone_step)+
  then show ?thesis ..
qed

lemma taken_close_gone:
  assumes "linked sy" "sys_move wch ech cch pe qc (Takes_Close cid flag) sy sy'"
    and "sv_connections (sy_server sy) cid = Some st"
  shows "gone cid sy'"
proof -
  have "unat cid < sy_accepted sy"
    using assms(1,3) by (auto simp: linked_def records_ok_def)
  with assms(2) show ?thesis
    by cases (use assms(3) in \<open>auto simp: gone_def conn_closed_def split: option.splits\<close>)
qed

subsection \<open>Properties\<close>

text \<open>C32: A close that is taken first throws the queued data away. Once the loop has taken the close
  message of a connection, every event of this connection that it takes afterwards, in any
  continuation of the run with at most \<open>2 ^ 64\<close> accepted connections, finds no record and changes
  nothing: the bytes it carries reach no callback. The step that takes a close does not require
  the event channel to be empty, since a driver may send its last data and its close between the
  polls of the two channels. The run in the witness ends with a byte that its stream's installed
  \<open>on_data\<close> callback never gets, although it would have got it from the same state had the event
  been taken first.\<close>

theorem close_overtakes_data:
  assumes "reachable wch ech cch pe qc sy" "sv_connections (sy_server sy) cid = Some st"
    and "sys_move wch ech cch pe qc (Takes_Close cid flag) sy sy1"
    and "(sys_step wch ech cch pe qc)\<^sup>*\<^sup>* sy1 sy2" "sy_accepted sy2 \<le> 2 ^ 64"
    and "sys_move wch ech cch pe qc (Dispatches cid ev) sy2 sy3"
  shows "sv_connections (sy_server sy2) cid = None \<and> sy_store sy3 = sy_store sy2"
proof -
  note linked = reachable_linked [OF assms(1)]
  have "gone cid sy2"
    using gone_forever [OF assms(4) _ taken_close_gone [OF linked assms(3,2)]]
      links.inv_step [OF linked sys_moveI [OF assms(3)]] by blast
  then have "sv_connections (sy_server sy2) cid = None" using assms(5) by (simp add: gone_def)
  with assms(6) show ?thesis by cases (auto simp: dispatch_driver_event_def)
qed

text \<open>
  A run that loses a byte. The driver reads stream 1, which the server had opened, ends, and the
  loop takes its report before the data.
\<close>

definition last_byte :: ref_conn where
  "last_byte = example_conn\<lparr>rc_armed := [1], rc_unread := (\<lambda>_. [])(1 := [10]), rc_fin := (\<lambda>_. False)\<rparr>"

lemma last_byte_read:
  assumes "length (drv_io_worker_buf d) = Suc n" "fifo_live c" "2 \<le> fifo_room c"
  shows "\<exists>d' c' q'. process_reads fifo_mpsc ref_quic d c last_byte = Some (d', c', q') \<and>
     fifo_items c' = fifo_items c @ [(drv_conn_id d, Data 1 [10] False)] \<and> fifo_live c'"
proof -
  obtain x xs where buf: "drv_io_worker_buf d = x # xs"
    using assms(1) by (cases "drv_io_worker_buf d") auto
  obtain k where k: "fifo_room c = Suc (Suc k)" using assms(3) by (metis add_2_eq_Suc le_Suc_ex)
  let ?d = "d\<lparr>drv_io_worker_buf := 10 # xs\<rparr>"
  let ?c = "c\<lparr>fifo_items := fifo_items c @ [(drv_conn_id d, Data 1 [10] False)], fifo_room := Suc k\<rparr>"
  let ?q = "last_byte\<lparr>rc_armed := []\<rparr>"
  let ?q1 = "?q\<lparr>rc_unread := (rc_unread ?q)(1 := []), rc_fin := (rc_fin ?q)(1 := False)\<rparr>"
  have done': "recv_loop fifo_mpsc ref_quic 1 ?d ?c ?q1 = Some (False, ?d, ?c, ?q1)"
    by (subst recv_loop.simps) (simp add: fifo_simps ref_quic_simps assms(2))
  have reserve: "try_reserve fifo_mpsc c = Inr (c\<lparr>fifo_room := Suc k\<rparr>)"
    by (simp add: fifo_simps assms(2) k)
  have sent: "permit_send fifo_mpsc (drv_conn_id d, Data 1 [10] False) (c\<lparr>fifo_room := Suc k\<rparr>) = ?c"
    by (cases c) (simp add: fifo_mpsc_def)
  have recv: "stream_recv ref_quic 1 (x # xs) ?q = (Inr (1, False), 10 # xs, ?q1)"
    by (simp add: ref_quic_simps last_byte_def)
  have same: "d\<lparr>drv_io_worker_buf := 10 # xs, drv_seen_streams := drv_seen_streams d\<rparr> = ?d"
    by (cases d) simp
  have "recv_loop fifo_mpsc ref_quic 1 d c ?q = recv_loop fifo_mpsc ref_quic 1 ?d ?c ?q1"
    by (subst recv_loop.simps)
      (simp add: reserve recv buf same sent)
  then have "recv_loop fifo_mpsc ref_quic 1 d c ?q = Some (False, ?d, ?c, ?q1)"
    using done' by simp
  moreover have "read_loop fifo_mpsc ref_quic ?d ?c ?q1 = Some (?d, ?c, ?q1)"
    by (subst read_loop.simps) (simp add: ref_quic_simps)
  moreover have "rc_next last_byte = (Some 1, ?q)" by (simp add: rc_next_def last_byte_def)
  moreover have "announce fifo_mpsc 1 d c = Some (d, c)"
    by (simp add: announce_def client_initiated_def STREAM_ID_INITIATOR_MASK_def)
  ultimately have "read_loop fifo_mpsc ref_quic d c last_byte = Some (?d, ?c, ?q1)"
    by (subst read_loop.simps) (simp add: ref_quic_def)
  then show ?thesis using assms(2) by (simp add: process_reads_def)
qed

text \<open>PHP opens stream 1 through an object of the connection and installs an \<open>on_data\<close> callback.\<close>

definition race_prog :: "conn_state \<Rightarrow> php_prog" where
  "race_prog st = Call (OpenBidiStream (incoming_bidi 0 0 st 0 0) 1)
     (\<lambda>r. case r of PhpObject obj \<Rightarrow> Call (SetOnData obj (Zval 6)) (\<lambda>_. Done) | _ \<Rightarrow> Done)"

lemma race_opened:
  obtains sy :: demo_system and st d
  where "reachable fifo_mpsc fifo_mpsc fifo_mpsc example_engine ref_quic sy"
    "sy_accepted sy = 1" "sv_connections (sy_server sy) = [0 \<mapsto> st]" "cs_callbacks st = 2"
    "sy_drivers sy 0 = Some (d, example_conn)" "drv_conn_id d = 0"
    "st_maps (sy_store sy) = (\<lambda>_. Map.empty)(2 := [1 \<mapsto> \<lparr>ss_on_data = 3, ss_on_close = 4\<rparr>])"
    "st_slots (sy_store sy) = [3 \<mapsto> Zval 6]" "\<And>a cb b fin. CalledData a cb b fin \<notin> set (st_trace (sy_store sy))"
    "fifo_items (sv_events (sy_server sy)) = []" "length (drv_io_worker_buf d) = STREAM_BUFFER_SIZE"
    "fifo_items (sv_closes (sy_server sy)) = []"
proof (rule demo_accepted)
  fix sy :: demo_system and st d
  assume sy: "reachable fifo_mpsc fifo_mpsc fifo_mpsc example_engine ref_quic sy" "sy_accepted sy = 1"
    "sv_connections (sy_server sy) = [0 \<mapsto> st]" "cs_callbacks st = 2"
    "sy_drivers sy 0 = Some (d, example_conn)"
    "drv_conn_id d = 0" "st_maps (sy_store sy) = (\<lambda>_. Map.empty)" "st_next (sy_store sy) = 3"
    "st_slots (sy_store sy) = Map.empty"
    "fifo_items (sv_events (sy_server sy)) = []" "length (drv_io_worker_buf d) = STREAM_BUFFER_SIZE"
    "fifo_items (sv_closes (sy_server sy)) = []" "st_trace (sy_store sy) = [Started d]"
  have "sv_connections (sy_server sy) 0 = Some st" using sy(3) by simp
  moreover note reachable_linked [OF sy(1), unfolded linked_def records_ok_def]
  ultimately have "coh_callbacks (cs_open_handle st) = cs_callbacks st" by blast
  then have map: "coh_callbacks (cs_open_handle st) = 2" using sy(4) by simp
  let ?s = "(register_stream 2 1 (sy_store sy))\<lparr>st_slots :=
    (st_slots (register_stream 2 1 (sy_store sy)))(3 \<mapsto> Zval 6)\<rparr>"
  have "run_prog fifo_mpsc example_engine (race_prog st) {} (sy_store sy) = Some ?s"
    using sy(8) map by (simp add: race_prog_def incoming_bidi_def stream_defs
        prepare_bidi_stream_eq install_slot_def example_engine_def del: register_stream_simps(1))
  then have r: "reachable fifo_mpsc fifo_mpsc fifo_mpsc example_engine ref_quic
      (sy\<lparr>sy_store := ?s\<rparr>)"
    by (rule reachable.step [OF sy(1) sys_step_php])
  show thesis
    by (rule that [where st = st, OF r]) (use sy(2-13) in \<open>auto simp: fun_eq_iff\<close>)
qed

lemma race_run:
  obtains sy :: demo_system and st q c
  where "reachable fifo_mpsc fifo_mpsc fifo_mpsc example_engine ref_quic sy"
    "sy_accepted sy = 1" "sv_connections (sy_server sy) 0 = Some st" "cs_callbacks st = 2"
    "st_maps (sy_store sy) = (\<lambda>_. Map.empty)(2 := [1 \<mapsto> \<lparr>ss_on_data = 3, ss_on_close = 4\<rparr>])"
    "st_slots (sy_store sy) = [3 \<mapsto> Zval 6]" "\<And>a cb b fin. CalledData a cb b fin \<notin> set (st_trace (sy_store sy))"
    "fifo_live (sv_events (sy_server sy))"
    "fifo_items (sv_events (sy_server sy)) = [(0, Data 1 [10] False)]"
    "try_recv fifo_mpsc (sv_closes (sy_server sy)) = Inr ((0, peer_error ref_quic q), c)"
proof (rule race_opened)
  fix sy :: demo_system and st d
  assume sy: "reachable fifo_mpsc fifo_mpsc fifo_mpsc example_engine ref_quic sy" "sy_accepted sy = 1"
    "sv_connections (sy_server sy) = [0 \<mapsto> st]" "sy_drivers sy 0 = Some (d, example_conn)"
    "drv_conn_id d = 0" "cs_callbacks st = 2"
    "fifo_items (sv_events (sy_server sy)) = []" "length (drv_io_worker_buf d) = STREAM_BUFFER_SIZE"
    "fifo_items (sv_closes (sy_server sy)) = []"
    "st_maps (sy_store sy) = (\<lambda>_. Map.empty)(2 := [1 \<mapsto> \<lparr>ss_on_data = 3, ss_on_close = 4\<rparr>])"
    "st_slots (sy_store sy) = [3 \<mapsto> Zval 6]" "\<And>a cb b fin. CalledData a cb b fin \<notin> set (st_trace (sy_store sy))"
  let ?d = "on_conn_established d"
  have room: "fifo_live (sv_events (sy_server sy))" "2 \<le> fifo_room (sv_events (sy_server sy))"
    "fifo_live (sv_closes (sy_server sy))" "0 < fifo_room (sv_closes (sy_server sy))"
    using fifo_events.reachable_events [OF sy(1)] sy(7,9)
      reachable_filled(1) [OF fifo.mpsc_fifo_axioms fifo.mpsc_fifo_axioms sy(1)]
    by (simp_all add: filled_def SERVER_EVENT_CHANNEL_CAPACITY_def CONN_CLOSE_CHANNEL_CAPACITY_def)
  obtain d' c' q' where r: "process_reads fifo_mpsc ref_quic ?d (sv_events (sy_server sy)) last_byte =
      Some (d', c', q')" "fifo_items c' = [(0, Data 1 [10] False)]" "fifo_live c'"
    using last_byte_read [of ?d 65535, OF _ room(1,2)] sy(5,7,8)
    by (auto simp: on_conn_established_def STREAM_BUFFER_SIZE_def)
  have id: "drv_conn_id d' = 0"
    using read_loop_frame [OF r(1) [unfolded process_reads_def]] sy(5)
    by (cases d'; cases d) (simp add: reads_frame_def on_conn_established_def)
  let ?sy1 = "sy\<lparr>sy_drivers := (sy_drivers sy)(0 \<mapsto> (d, last_byte))\<rparr>"
  let ?sy2 = "?sy1\<lparr>sy_drivers := (sy_drivers ?sy1)(0 \<mapsto> (?d, last_byte))\<rparr>"
  let ?sy3 = "?sy2\<lparr>sy_server := (sy_server ?sy2)\<lparr>sv_events := c'\<rparr>,
    sy_drivers := (sy_drivers ?sy2)(0 \<mapsto> (d', q'))\<rparr>"
  let ?sy4 = "end_driver fifo_mpsc fifo_mpsc ref_quic 0 ?sy3"
  have "reachable fifo_mpsc fifo_mpsc fifo_mpsc example_engine ref_quic ?sy1"
    by (rule reachable.step [OF sy(1) sys_moveI [OF sys_move.network [OF sy(4)]]])
  then have "reachable fifo_mpsc fifo_mpsc fifo_mpsc example_engine ref_quic ?sy2"
    by (rule reachable.step) (rule sys_moveI [OF sys_move.established], simp)
  then have "reachable fifo_mpsc fifo_mpsc fifo_mpsc example_engine ref_quic ?sy3"
    by (rule reachable.step)
      (rule sys_moveI [OF sys_move.reads], use r(1) in \<open>simp_all add: should_act_def on_conn_established_def\<close>)
  then have "reachable fifo_mpsc fifo_mpsc fifo_mpsc example_engine ref_quic ?sy4"
    by (rule reachable.step) (rule end_driver_step, simp)
  then show thesis
    by (rule that [where q = q']) (use sy r id room in
      \<open>simp_all add: end_driver_def on_conn_close_def fifo_simps\<close>)
qed

theorem close_overtakes_data_witness:
  "\<exists>(sy :: demo_system) flag sy1 sy2 sya.
     reachable fifo_mpsc fifo_mpsc fifo_mpsc example_engine ref_quic sy \<and>
     sys_move fifo_mpsc fifo_mpsc fifo_mpsc example_engine ref_quic
       (Dispatches 0 (Data 1 [10] False)) sy sya \<and>
     CalledData 3 (Zval 6) [10] False \<in> set (st_trace (sy_store sya)) \<and>
     sys_move fifo_mpsc fifo_mpsc fifo_mpsc example_engine ref_quic (Takes_Close 0 flag) sy sy1 \<and>
     sys_move fifo_mpsc fifo_mpsc fifo_mpsc example_engine ref_quic
       (Dispatches 0 (Data 1 [10] False)) sy1 sy2 \<and>
     (\<forall>a cb b fin. CalledData a cb b fin \<notin> set (st_trace (sy_store sy2))) \<and>
     fifo_items (sv_events (sy_server sy2)) = []"
proof (rule race_run)
  fix sy :: demo_system and st q c
  assume sy: "reachable fifo_mpsc fifo_mpsc fifo_mpsc example_engine ref_quic sy"
    "sy_accepted sy = 1" "sv_connections (sy_server sy) 0 = Some st" "cs_callbacks st = 2"
    "st_maps (sy_store sy) = (\<lambda>_. Map.empty)(2 := [1 \<mapsto> \<lparr>ss_on_data = 3, ss_on_close = 4\<rparr>])"
    "st_slots (sy_store sy) = [3 \<mapsto> Zval 6]" "\<And>a cb b fin. CalledData a cb b fin \<notin> set (st_trace (sy_store sy))"
    "fifo_live (sv_events (sy_server sy))"
    "fifo_items (sv_events (sy_server sy)) = [(0, Data 1 [10] False)]"
    "try_recv fifo_mpsc (sv_closes (sy_server sy)) = Inr ((0, peer_error ref_quic q), c)"
  let ?flag = "peer_error ref_quic q"
  let ?sv = "(sy_server sy)\<lparr>sv_closes := c,
    sv_connections := (sv_connections (sy_server sy))(0 := None)\<rparr>"
  let ?s = "(sy_store sy)\<lparr>st_maps := (st_maps (sy_store sy))(2 := Map.empty)\<rparr>"
  let ?sy1 = "sy\<lparr>sy_server := ?sv, sy_store := ?s\<rparr>"
  obtain e where e: "try_recv fifo_mpsc (sv_events (sy_server sy)) = Inr ((0, Data 1 [10] False), e)"
    "fifo_items e = []"
    using sy(8,9) by (simp add: fifo_simps)
  have "dispatch_driver_event fifo_mpsc example_engine 0 (Data 1 [10] False) (sy_server sy)
      (sy_store sy) = Some (emit (CalledData 3 (Zval 6) [10] False) (sy_store sy))"
    using sy(3-6)
    by (simp add: dispatch_driver_event_def dispatch_data_eq call_on_data_def Let_def example_engine_def)
  from sys_move.dispatch [OF e(1) this] obtain sya where first: "sys_move fifo_mpsc fifo_mpsc fifo_mpsc
      example_engine ref_quic (Dispatches 0 (Data 1 [10] False)) sy sya"
    "CalledData 3 (Zval 6) [10] False \<in> set (st_trace (sy_store sya))"
    by fastforce
  have "close_slots sorted_list_of_set (st_maps (sy_store sy) 2) = [4]"
    using sy(5) by (simp add: close_slots_def map_filter_simps)
  then have "conn_closed fifo_mpsc example_engine sorted_list_of_set 0 ?flag
      ((sy_server sy)\<lparr>sv_closes := c\<rparr>) (sy_store sy) = Some (?sv, ?s)"
    using sy(3,4,6) by (simp add: conn_closed_def drain_callbacks_def fire_on_close_def Let_def)
  from sys_move.closed [OF sy(10) hash_order_sorted this]
  have taken: "sys_move fifo_mpsc fifo_mpsc fifo_mpsc example_engine ref_quic
      (Takes_Close 0 ?flag) sy ?sy1" .
  have "try_recv fifo_mpsc (sv_events (sy_server ?sy1)) = Inr ((0, Data 1 [10] False), e)"
    using e(1) by simp
  from sys_move.dispatch [OF this, of fifo_mpsc example_engine ?s fifo_mpsc ref_quic]
  obtain sy2 where sy2: "sys_move fifo_mpsc fifo_mpsc fifo_mpsc example_engine ref_quic
      (Dispatches 0 (Data 1 [10] False)) ?sy1 sy2" "fifo_items (sv_events (sy_server sy2)) = []"
    using e(2) by (fastforce simp: dispatch_driver_event_def)
  have "sy_store sy2 = ?s"
    using close_overtakes_data [OF sy(1,3) taken rtranclp.rtrancl_refl _ sy2(1)] sy(2) by simp
  then have "CalledData a cb b fin \<notin> set (st_trace (sy_store sy2))" for a cb b fin
    using sy(7) by simp
  with sy(1) first taken sy2 show ?thesis by blast
qed

text \<open>
  The same race in \<open>tick\<close>: the event and the close report are sent between the two polls of the
  first pass, so this pass takes the report, and the event, which only the second pass finds,
  reaches nobody. Sent a moment earlier, it is delivered first.
\<close>

definition race_input :: "(u64 \<times> driver_event) list \<Rightarrow> (u64 \<times> bool) list \<Rightarrow>
    ((u64 \<times> driver_event) fifo, (u64 \<times> bool) fifo) tick_input" where
  "race_input evs cls = \<lparr>ti_events = (\<lambda>c. c\<lparr>fifo_items := fifo_items c @ evs\<rparr>),
     ti_closes = (\<lambda>c. c\<lparr>fifo_items := fifo_items c @ cls\<rparr>), ti_accept = None, ti_readable = False\<rparr>"

lemma tick_takes_close_first:
  "map_option (\<lambda>(status, sv, s). st_trace s)
     (tick fifo_mpsc fifo_mpsc fifo_mpsc example_engine (\<lambda>_. [0, 4]) True
        [race_input [] [(7, True)], race_input [(7, Data 0 [1] False)] []] demo_server demo_store) =
   Some [CalledClose 4 (Zval 11) True]"
  "map_option (\<lambda>(status, sv, s). st_trace s)
     (tick fifo_mpsc fifo_mpsc fifo_mpsc example_engine (\<lambda>_. [0, 4]) True
        [race_input [(7, Data 0 [1] False)] [(7, True)], race_input [] []] demo_server demo_store) =
   Some [CalledData 3 (Zval 10) [1] False, CalledClose 4 (Zval 11) True]"
  by code_simp+

end
