(* ===== verification/Module.thy ===== *)
theory Module
  imports Prelude
begin

text \<open>
  \<open>src/lib.rs\<close> and \<open>register\<close> of \<open>src/timer.rs\<close>: what the extension registers with PHP when it
  is loaded. The builder of ext-php-rs is a parameter, a record of the three operations called
  on an unknown state \<open>'m\<close>. Setting up the logger has no influence on the result and is left
  out: its outcome is thrown away by the code.
\<close>

datatype php_class =
    ConfigClass
  | SocketAddressClass
  | QuicheServerSocketClass
  | IncomingBidiStreamClass
  | IncomingUniStreamClass
  | BidiStreamClass
  | UniStreamClass

datatype php_function =
    NetworkEventfdCreate
  | NetworkEventfdSignal
  | NetworkEventfdClose

record 'm module_builder =
  mb_name :: "string \<Rightarrow> 'm \<Rightarrow> 'm"
  mb_class :: "php_class \<Rightarrow> 'm \<Rightarrow> 'm"
  mb_function :: "php_function \<Rightarrow> 'm \<Rightarrow> 'm"

definition register :: "'m module_builder \<Rightarrow> 'm \<Rightarrow> 'm" where
  "register mb m =
     mb_function mb NetworkEventfdClose
       (mb_function mb NetworkEventfdSignal
         (mb_function mb NetworkEventfdCreate m))"

definition get_module :: "'m module_builder \<Rightarrow> 'm \<Rightarrow> 'm" where
  "get_module mb m =
     (let m1 = mb_name mb ''ext-quiche'' m;
          m2 = mb_class mb ConfigClass m1;
          m3 = mb_class mb SocketAddressClass m2;
          m4 = mb_class mb QuicheServerSocketClass m3;
          m5 = mb_class mb IncomingBidiStreamClass m4;
          m6 = mb_class mb IncomingUniStreamClass m5;
          m7 = mb_class mb BidiStreamClass m6;
          m8 = mb_class mb UniStreamClass m7
      in register mb m8)"

text \<open>
  What ext-php-rs documents of a builder: it collects what it is given, and the last name counts.
\<close>

locale collecting_builder =
  fixes mb :: "'m module_builder"
    and name :: "'m \<Rightarrow> string"
    and classes :: "'m \<Rightarrow> php_class list"
    and fns :: "'m \<Rightarrow> php_function list"
  assumes mb_name: "name (mb_name mb s m) = s" "classes (mb_name mb s m) = classes m"
      "fns (mb_name mb s m) = fns m"
    and mb_class: "name (mb_class mb cl m) = name m" "classes (mb_class mb cl m) = classes m @ [cl]"
      "fns (mb_class mb cl m) = fns m"
    and mb_function: "name (mb_function mb fn m) = name m" "classes (mb_function mb fn m) = classes m"
      "fns (mb_function mb fn m) = fns m @ [fn]"
begin

lemma register_collects:
  "name (register mb m) = name m" "classes (register mb m) = classes m"
  "fns (register mb m) =
     fns m @ [NetworkEventfdCreate, NetworkEventfdSignal, NetworkEventfdClose]"
  by (simp_all add: register_def mb_function)

text \<open>Every class and function of the extension is registered, and none twice.\<close>

lemma get_module_collects:
  assumes "classes m = []" "fns m = []"
  shows "name (get_module mb m) = ''ext-quiche''"
    "set (classes (get_module mb m)) = UNIV" "distinct (classes (get_module mb m))"
    "set (fns (get_module mb m)) = UNIV" "distinct (fns (get_module mb m))"
proof -
  show "set (classes (get_module mb m)) = UNIV"
  proof (intro equalityI subset_UNIV subsetI)
    fix cl show "cl \<in> set (classes (get_module mb m))"
      by (cases cl) (simp_all add: get_module_def Let_def register_collects mb_class mb_name)
  qed
  show "set (fns (get_module mb m)) = UNIV"
  proof (intro equalityI subset_UNIV subsetI)
    fix fn show "fn \<in> set (fns (get_module mb m))"
      by (cases fn) (simp_all add: get_module_def Let_def register_collects mb_class mb_name)
  qed
qed (use assms in \<open>simp_all add: get_module_def Let_def register_collects mb_class mb_name\<close>)

end

text \<open>A builder that collects.\<close>

record module_log =
  ml_name :: string
  ml_classes :: "php_class list"
  ml_functions :: "php_function list"

definition log_builder :: "module_log module_builder" where
  "log_builder =
     \<lparr>mb_name = (\<lambda>s m. m\<lparr>ml_name := s\<rparr>),
      mb_class = (\<lambda>cl m. m\<lparr>ml_classes := ml_classes m @ [cl]\<rparr>),
      mb_function = (\<lambda>fn m. m\<lparr>ml_functions := ml_functions m @ [fn]\<rparr>)\<rparr>"

interpretation log_builder: collecting_builder log_builder ml_name ml_classes ml_functions
  by unfold_locales (simp_all add: log_builder_def)

end
