(* ===== verification/Spec2Isabelle.thy ===== *)
theory Spec2Isabelle
  imports Utf8 Errors Runtime Timer Config_Correct Read_Path Write_Path
    Server_Correct Socket_Correct System Closed_Connections Lost_Closes Fresh_Ids Backlog
    Delivery Wakeups Progress Stalled Close_Race Module
begin

text \<open>
  A model of \<open>ext-quiche\<close>, a PHP extension in Rust that runs a QUIC server on top of
  tokio-quiche. This block is the documentation of the whole development.

  \<^bold>\<open>The program.\<close> A PHP script builds a \<open>Config\<close> (\<open>src/config.rs\<close>), constructs a
  \<open>QuicheServerSocket\<close> with socket addresses, an optional eventfd and a callback for new
  streams (\<open>src/conn.rs\<close>), and calls \<open>tick\<close> in a loop. The socket starts one process-wide
  tokio runtime (\<open>src/quiche/runtime.rs\<close>), binds the addresses and runs the server loop
  (\<open>src/quiche/socket.rs\<close>) on the PHP thread. Every accepted connection gets a server-side
  record (\<open>src/quiche/conn.rs\<close>) and a driver (\<open>src/quiche/driver.rs\<close>) that tokio-quiche runs
  on a worker thread. A driver moves what the client sends from its QUIC connection into an
  event channel that all drivers share, and reports its end through a close channel; the loop
  takes the events, creates stream objects (\<open>src/stream.rs\<close>) and calls PHP. PHP answers by
  queueing chunks in the connection's write channel, which the driver empties into the
  connection. Another PHP thread wakes the loop through the eventfd (\<open>src/timer.rs\<close>).

  \<^bold>\<open>Theories and what they model.\<close>
  \<^item> \<open>Prelude\<close>: machine integers as words, byte strings, the unknown iteration order of a
    hash map (\<open>hash_order\<close>), locale \<open>inductive_invariant\<close>.
  \<^item> \<open>Radix\<close>, \<open>Utf8\<close>: the standard library's number parsing and printing and
    \<open>String::from_utf8_lossy\<close>, as far as the sources use them.
  \<^item> \<open>Errors\<close>: \<open>QuicheError\<close>, its texts, PHP exceptions. \<open>Runtime\<close>: \<open>worker_thread_count\<close>,
    \<open>get_runtime\<close> with its \<open>OnceLock\<close>. \<open>Timer\<close>: the three eventfd functions over a kernel that is
    a parameter (locale \<open>eventfd_kernel\<close>). \<open>Module\<close>: \<open>get_module\<close> of \<open>src/lib.rs\<close> and
    \<open>timer::register\<close> over a builder that is a parameter (locale \<open>collecting_builder\<close>).
  \<^item> \<open>Config\<close>, \<open>Config_Correct\<close>: the 44 settings the class touches with all getters and setters,
    and the class as a table of independent settings (locale \<open>settings_table\<close>).
  \<^item> \<open>Channel\<close>: tokio's bounded channel, a parameter with the laws of locale \<open>mpsc_fifo\<close>.
    \<open>Quic\<close>: the four calls made on a QUIC connection, a parameter with the laws of the locales
    \<open>quic_reader\<close>, \<open>quic_live_reader\<close>, \<open>quic_duplex\<close>, \<open>quic_sender\<close>, \<open>quic_open_sender\<close> (and
    \<open>quic_capacity\<close> in \<open>Progress\<close>). Both theories also
    define an executable instance that satisfies the laws, on which the theorems are evaluated.
  \<^item> \<open>Store\<close>: the structs that PHP thread and drivers share, an \<open>Arc\<close> as an address into a
    \<open>store\<close>, the non-reentrant mutexes of the PHP thread, and \<open>st_trace\<close>, the record of what
    leaves the Rust code. \<open>Conn\<close>: \<open>make_slot_pair\<close>, \<open>ConnOpenHandle\<close>, \<open>ConnState::build\<close>.
  \<^item> \<open>Streams\<close>: every method of the four stream classes. \<open>Php\<close>: PHP code as a parameter, a
    program over these methods (\<open>php_prog\<close>) that may depend on everything that happened and
    that is interleaved with what the drivers do to the write channels meanwhile, and locale \<open>store_invariant\<close>: what every such program keeps.
  \<^item> \<open>Driver_Reads\<close>, \<open>Driver_Writes\<close>: the driver. Its loops are partial functions, because they
    end only if channel and connection behave; the locales \<open>driver_env\<close>, \<open>driver_live_env\<close> and
    \<open>write_env\<close> join the laws they need, and inside them the loops are shown to return;
    \<open>reads_invariant\<close> is what the reading loops keep of driver and event channel.
  \<^item> \<open>Server\<close>: the server loop, one definition per arm and per helper, \<open>tick\<close> over the list of
    the inputs of its passes. \<open>Server_Callbacks\<close>: the invariants of the callback slots, the
    locales \<open>callback_invariant\<close>, \<open>server_invariant\<close>, \<open>connection_invariant\<close>. \<open>Server_Loop\<close>,
    \<open>Server_Correct\<close>: what each operation does on each branch, and the properties.
  \<^item> \<open>Socket\<close>, \<open>Socket_Correct\<close>: the PHP classes \<open>SocketAddress\<close> and \<open>QuicheServerSocket\<close>.
  \<^item> \<open>System\<close>: server loop, drivers, network and PHP as one inductive step relation with any
    interleaving, its reachable states, and the invariants that tie record, driver and channels
    of a connection together. A step carries a label that says which it is (\<open>sys_label\<close>).
  \<^item> \<open>Read_Path\<close>: driver and server loop composed, the way of a client's bytes to \<open>on_data\<close>.
    \<open>Delivery\<close>: the same way in the runs of \<open>System\<close>, with all connections on one channel.
    \<open>Write_Path\<close>: PHP, driver and network composed, any interleaving of method calls,
    \<open>process_writes\<close> and changes of the connection as a refinement of one byte string per stream.
    \<open>Wakeups\<close>: \<open>write\<close> and driver taken apart into the operations on what they share.
    \<open>Progress\<close>, \<open>Stalled\<close>: when what was written is sent, and what happens when it is not.
  \<^item> \<open>Backlog\<close>: when \<open>tick\<close> is left. \<open>Channel_Bounds\<close>: the capacities of the channels.
    \<open>Closed_Connections\<close>: nothing of a closed connection is ever called again. \<open>Lost_Closes\<close>:
    what a full close channel does. \<open>Close_Race\<close>: what a close that overtakes data does.
    \<open>Fresh_Ids\<close>: a new connection shares its number with nothing.
    This theory: from the constructor to the reachable states.

  \<^bold>\<open>What is shown.\<close> Reading: a driver moves each stream's bytes into the event channel without
  loss, duplication or reordering, announces streams by the protocol, drains what is readable
  while there is room, and strands a stream when there is none; \<open>tick\<close> hands the same bytes to
  the stream's callback; and in every run of the whole system what arrived on a stream is what was
  dispatched, followed by what is queued and unread. Writing: no byte or FIN of a writable stream
  is lost on the way from PHP to the connection, as long as PHP queues nothing behind a FIN, every
  stream is attempted in every pass (stated over the calls that an observer of the connection
  notes, \<open>logged_quic\<close>), no wake-up of the driver is lost, and a peer that keeps opening its windows gets everything; a peer that opens
  none makes the driver's queue grow without a bound. Callbacks: an \<open>on_close\<close> slot is called
  at most once in every reachable state, a closed connection or server calls every installed
  one, and afterwards nothing of the connection is called again. Connections: they are
  numbered in order, a number that is given out belongs to nothing that is still around, record
  and driver stay together, channels
  keep their capacity, a close report that is lost leaves the record behind, and one that is taken
  before the data makes the data be dropped. The loop: events
  are handled in order, the loop never hangs when callbacks keep off the locks they run under, and
  hangs in two patterns in which they do not; a signal ends it as soon as the backlog is handled.
  Configuration, errors, runtime and descriptors: round trips, bounds and outcomes.

  \<^bold>\<open>Conventions.\<close> \<open>None\<close> around a result means that control does not come back: a loop that does
  not end, a mutex the thread holds already, a slice out of range. A loop of the driver needs no
  fuel; \<open>tick\<close> is not bounded in the code, and a theorem about it holds for every list of
  inputs. The input of a pass says what was sent into each channel up to the moment its arm of the
  \<open>select!\<close> is polled, so that a message may arrive between two polls. Parameters stand for code outside \<open>src/\<close>: tokio's channels and builder, quiche, the
  kernel, the network, the default settings, PHP. The laws assumed of them are the locales
  above, each with an instance in the development. The invariants of the reachable states assume
  no law, except where \<open>Lost_Closes\<close>, \<open>Channel_Bounds\<close>, \<open>Fresh_Ids\<close> and \<open>Delivery\<close> speak about
  the contents of channels or of a connection.

  \<^bold>\<open>Atomicity.\<close> In \<open>System\<close> a callback of the driver, the handling of an event and a piece of PHP
  code are one step each. PHP code shares with the drivers the write channels and the \<open>Notify\<close>
  only, so the interleavings inside such a step are those of \<open>php_prog\<close>: between any two method
  calls drivers may take chunks out of the write channels and drop their receivers, and what is
  shown holds for all of these. What drivers send into the event and close channels meanwhile
  is neither seen nor changed by the step and counts as sent after it. Within one method call
  \<open>write\<close> sends and then notifies; \<open>Wakeups\<close> splits the call and the driver into these operations,
  and shows that split steps without interference are the definitions of
  \<open>Streams\<close> and \<open>Driver_Writes\<close>. It relies on what tokio documents of \<open>Notify\<close>, that \<open>notify_one\<close>
  leaves a permit when nobody waits, and on tokio-quiche calling \<open>process_writes\<close> after
  \<open>wait_for_data\<close> has returned.

  \<^bold>\<open>Not modelled.\<close> \<open>src/quiche/mod.rs\<close> (module declarations), the test in \<open>src/conn.rs\<close>, the
  example script, logging, the QUIC protocol itself, TLS, and the scheduling of tokio beyond the
  interleavings of \<open>System\<close> and \<open>Wakeups\<close>, in particular its fairness: liveness is stated for given
  sequences of passes. \<open>from_utf8_unchecked\<close> on stream data is modelled as passing the bytes on. A PHP
  callback that calls \<open>tick\<close> or \<open>close\<close> of the same socket again is excluded by PHP's exclusive
  borrow of the object. The arms \<open>NewConn(None)\<close>, \<open>Driver(None)\<close> and \<open>ConnClosed(None)\<close> of the
  loop are unreachable, since the patterns of the \<open>select!\<close> match \<open>Some\<close> only.
\<close>

subsection \<open>From the constructor to the running system\<close>

text \<open>C23: A socket that the constructor returns starts the system in an initial state, so what is
  shown of reachable states is true of every run that begins with a successful construction. In
  particular its connections are numbered in the order in which they were accepted: the driver of
  the \<open>n\<close>-th connection, counted from 0, carries the number \<open>n\<close> modulo \<open>2 ^ 64\<close>; every record
  is kept under the number that its handle names, which was given out already, and its handle has
  its peer's address; and a connection that is accepted in any state of the run gets the next
  number, in its driver, in its record and in the handle of the record, and leaves all other
  records alone.\<close>

theorem constructed_server_numbers_connections:
  assumes "socket_construct callable pr net ech cch kn sockets config efd on_stream cell k =
      (Inr sock, cell', k')"
    and "(sys_step wch ech cch pe qc)\<^sup>*\<^sup>*
      \<lparr>sy_server = qs_inner sock, sy_store = init_store c, sy_drivers = Map.empty, sy_accepted = 0\<rparr>
      sy"
  shows "reachable wch ech cch pe qc sy \<and>
     (\<forall>n d q. sy_drivers sy n = Some (d, q) \<longrightarrow>
        n < sy_accepted sy \<and> drv_conn_id d = word_of_nat n) \<and>
     (\<forall>i st. sv_connections (sy_server sy) i = Some st \<longrightarrow> unat i < sy_accepted sy \<and>
        coh_conn_id (cs_open_handle st) = i \<and>
        coh_peer_addr (cs_open_handle st) = cs_peer_addr st) \<and>
     (\<forall>peer sv drv s. accept_connection wch peer (sy_server sy) (sy_store sy) = ((sv, drv), s) \<longrightarrow>
        drv_conn_id drv = word_of_nat (sy_accepted sy) \<and>
        (\<exists>st. sv_connections sv =
              (sv_connections (sy_server sy))(word_of_nat (sy_accepted sy) \<mapsto> st) \<and>
           cs_peer_addr st = peer \<and>
           coh_conn_id (cs_open_handle st) = word_of_nat (sy_accepted sy)))"
proof -
  obtain sv where "bind net ech cch (map get_address_result sockets) config (Some on_stream) = Inr sv"
    "qs_inner sock = sv"
    using assms(1) by (cases rule: socket_construct_cases) auto
  then have "qs_inner sock = \<lparr>sv_listening = True, sv_connections = Map.empty, sv_id_counter = 0,
      sv_stream_callback = Some on_stream,
      sv_events = mpsc_channel ech SERVER_EVENT_CHANNEL_CAPACITY,
      sv_closes = mpsc_channel cch CONN_CLOSE_CHANNEL_CAPACITY\<rparr>"
    using bind_Inr by blast
  then have "initial ech cch \<lparr>sy_server = qs_inner sock, sy_store = init_store c,
      sy_drivers = Map.empty, sy_accepted = 0\<rparr>"
    by (auto simp: initial_def)
  with assms(2) have reach: "reachable wch ech cch pe qc sy"
    unfolding reachable_iff by blast
  note ok = reachable_linked [OF reach, unfolded linked_def]
  have "n < sy_accepted sy \<and> drv_conn_id d = word_of_nat n" if "sy_drivers sy n = Some (d, q)" for n d q
  proof -
    have "links (sy_drivers sy) n = Some (drv_conn_id d, drv_stream_event_recv d, drv_write_notify d)"
      using that by (simp add: links_def)
    then show ?thesis using ok unfolding drivers_ok_def by blast
  qed
  moreover have "unat i < sy_accepted sy \<and> coh_conn_id (cs_open_handle st) = i \<and>
      coh_peer_addr (cs_open_handle st) = cs_peer_addr st"
    if "sv_connections (sy_server sy) i = Some st" for i st
    using that ok unfolding records_ok_def by blast
  moreover have "drv_conn_id drv = word_of_nat (sy_accepted sy) \<and>
      (\<exists>st. sv_connections sv = (sv_connections (sy_server sy))(word_of_nat (sy_accepted sy) \<mapsto> st) \<and>
         cs_peer_addr st = peer \<and> coh_conn_id (cs_open_handle st) = word_of_nat (sy_accepted sy))"
    if acc: "accept_connection wch peer (sy_server sy) (sy_store sy) = ((sv, drv), s)" for peer sv drv s
  proof -
    obtain st s1 where b: "build wch (sv_id_counter (sy_server sy)) peer (sy_store sy) = ((st, drv), s1)"
      "sv = (sy_server sy)\<lparr>sv_id_counter := sv_id_counter (sy_server sy) + 1,
         sv_connections := (sv_connections (sy_server sy))(sv_id_counter (sy_server sy) \<mapsto> st)\<rparr>"
      using acc by (auto simp: accept_connection_def Let_def split: prod.splits)
    moreover have "sv_id_counter (sy_server sy) = word_of_nat (sy_accepted sy)" using ok by simp
    ultimately show ?thesis
      using build_simps(1,3,4) [OF b(1)] by (intro conjI exI [of _ st]) simp_all
  qed
  ultimately show ?thesis using reach by blast
qed

text \<open>A run in which the constructed server accepts one connection, and then a second one.\<close>

theorem constructed_server_numbers_connections_witness:
  "\<exists>sock (sy :: demo_system) d q sv drv s.
     fst (demo_construct [socket_address_construct ''127.0.0.1'' 4433] demo_config 0) = Inr sock \<and>
     (sys_step fifo_mpsc fifo_mpsc fifo_mpsc example_engine ref_quic)\<^sup>*\<^sup>*
       \<lparr>sy_server = qs_inner sock, sy_store = init_store (mpsc_channel fifo_mpsc 2),
        sy_drivers = Map.empty, sy_accepted = 0\<rparr> sy \<and>
     sy_drivers sy 0 = Some (d, q) \<and> drv_conn_id d = 0 \<and>
     accept_connection fifo_mpsc ''second'' (sy_server sy) (sy_store sy) = ((sv, drv), s) \<and>
     drv_conn_id drv = 1 \<and> (\<exists>st. sv_connections sv 1 = Some st \<and> cs_peer_addr st = ''second'')"
proof -
  obtain sock where c: "demo_construct [socket_address_construct ''127.0.0.1'' 4433] demo_config 0 =
      (Inr sock, Some 5, demo_kernel\<lparr>fdt_fds := [(1, 1), (0, 1)]\<rparr>)"
    using demo_socket [of "[socket_address_construct ''127.0.0.1'' 4433]" demo_config] by auto
  define sy :: demo_system where
    "sy = \<lparr>sy_server = qs_inner sock, sy_store = init_store (mpsc_channel fifo_mpsc 2),
       sy_drivers = Map.empty, sy_accepted = 0\<rparr>"
  obtain sv d s where acc: "accept_connection fifo_mpsc ''first'' (sy_server sy) (sy_store sy) =
      ((sv, d), s)"
    by (metis prod.exhaust)
  define sy' :: demo_system where
    "sy' = sy\<lparr>sy_server := sv, sy_store := s,
       sy_drivers := (sy_drivers sy)(sy_accepted sy \<mapsto> (d, example_conn)),
       sy_accepted := Suc (sy_accepted sy)\<rparr>"
  have "sv_listening (sy_server sy)"
    using constructor_outcomes_listening [OF c [unfolded demo_construct_def]] by (simp add: sy_def)
  then have "sys_step fifo_mpsc fifo_mpsc fifo_mpsc example_engine ref_quic sy sy'"
    unfolding sy'_def by (rule sys_step_accept [OF _ acc])
  then have run: "(sys_step fifo_mpsc fifo_mpsc fifo_mpsc example_engine ref_quic)\<^sup>*\<^sup>* sy sy'" by blast
  have sy': "sy_drivers sy' 0 = Some (d, example_conn)" "sy_accepted sy' = 1"
    by (simp_all add: sy'_def sy_def)
  obtain sv2 drv s2 where acc2: "accept_connection fifo_mpsc ''second'' (sy_server sy') (sy_store sy') =
      ((sv2, drv), s2)"
    by (metis prod.exhaust)
  note numbers = constructed_server_numbers_connections [OF c [unfolded demo_construct_def]
      run [unfolded sy_def]]
  have "drv_conn_id d = 0"
    using numbers sy'(1) by fastforce
  moreover have "drv_conn_id drv = 1 \<and>
      (\<exists>st. sv_connections sv2 1 = Some st \<and> cs_peer_addr st = ''second'')"
    using numbers acc2 sy'(2) by fastforce
  ultimately show ?thesis
    using c run [unfolded sy_def] sy'(1) acc2 by fastforce
qed

end
